theory Spec2Isabelle
  imports Main
begin

section \<open>JavaScript strings\<close>

text \<open>
  A JavaScript string is a sequence of code units. The model is \<^typ>\<open>string\<close>: the code
  units below 256, read as Latin-1. What the string methods of the source do on that range
  is written out below.
\<close>

definition is_ws :: "char \<Rightarrow> bool" where
  \<comment> \<open>White space and line terminators, as \<open>String.prototype.trim\<close> strips them:
      TAB, LF, VT, FF, CR, SP and NBSP.\<close>
  "is_ws c \<longleftrightarrow> (of_char c :: nat) \<in> {9, 10, 11, 12, 13, 32, 160}"

definition trim :: "string \<Rightarrow> string" where
  "trim s = rev (dropWhile is_ws (rev (dropWhile is_ws s)))"

definition toLowerCase_char :: "char \<Rightarrow> char" where
  \<comment> \<open>\<open>A\<close>..\<open>Z\<close> and the Latin-1 capitals \<open>0xC0\<close>..\<open>0xDE\<close> (the multiplication sign
      \<open>0xD7\<close> apart) move up by 32; every other code unit stays.\<close>
  "toLowerCase_char c =
     (let n = (of_char c :: nat)
      in if (65 \<le> n \<and> n \<le> 90) \<or> (192 \<le> n \<and> n \<le> 222 \<and> n \<noteq> 215)
         then char_of (n + 32) else c)"

definition toLowerCase :: "string \<Rightarrow> string" where
  "toLowerCase s = map toLowerCase_char s"

definition startsWith :: "string \<Rightarrow> string \<Rightarrow> bool" where
  \<comment> \<open>\<open>s.startsWith(p)\<close>\<close>
  "startsWith s p \<longleftrightarrow> take (length p) s = p"

fun join :: "string \<Rightarrow> string list \<Rightarrow> string" where
  \<comment> \<open>\<open>xs.join(sep)\<close>\<close>
  "join sep [] = []"
| "join sep [x] = x"
| "join sep (x # y # ys) = x @ sep @ join sep (y # ys)"

fun split_lines :: "string \<Rightarrow> string list" where
  \<comment> \<open>\<open>s.split(/\r?\n/)\<close>: a line ends at LF or at CR LF; a CR that no LF follows
      stays in its line; the empty string is one empty line.\<close>
  "split_lines [] = [[]]"
| "split_lines [c] = (if c = CHR 0x0A then [[], []] else [[c]])"
| "split_lines (c # d # cs) =
     (if c = CHR 0x0D \<and> d = CHR 0x0A then [] # split_lines cs
      else if c = CHR 0x0A then [] # split_lines (d # cs)
      else (case split_lines (d # cs) of [] \<Rightarrow> [[c]] | l # ls \<Rightarrow> (c # l) # ls))"

fun digits_of :: "nat \<Rightarrow> nat \<Rightarrow> string" where
  \<comment> \<open>The decimal digits of a number below \<open>10 ^ k\<close>, most significant first, without
      leading zeros (\<open>0\<close> gives no digit).\<close>
  "digits_of 0 n = []"
| "digits_of (Suc k) n =
     (if n = 0 then [] else digits_of k (n div 10) @ [char_of (48 + n mod 10)])"

definition string_of_nat :: "nat \<Rightarrow> string" where
  \<comment> \<open>A non-negative integer inside a template literal. A number \<open>n\<close> has at most
      \<open>n\<close> digits, so \<open>digits_of n n\<close> prints all of them.\<close>
  "string_of_nat n = (if n = 0 then ''0'' else digits_of n n)"

section \<open>Node keys\<close>

definition is_alnum_lower :: "char \<Rightarrow> bool" where
  \<comment> \<open>The character class \<open>[a-z0-9]\<close>.\<close>
  "is_alnum_lower c \<longleftrightarrow>
     (let n = (of_char c :: nat) in (97 \<le> n \<and> n \<le> 122) \<or> (48 \<le> n \<and> n \<le> 57))"

function collapse_non_alnum :: "string \<Rightarrow> string" where
  \<comment> \<open>\<open>.replace(/[^a-z0-9]+/g, "-")\<close>: every maximal run of characters outside
      \<open>[a-z0-9]\<close> becomes one dash.\<close>
  "collapse_non_alnum [] = []"
| "collapse_non_alnum (c # cs) =
     (if is_alnum_lower c then c # collapse_non_alnum cs
      else CHR ''-'' # collapse_non_alnum (dropWhile (\<lambda>d. \<not> is_alnum_lower d) cs))"
  by pat_completeness auto
termination
  by (relation "measure length") (auto simp: le_imp_less_Suc length_dropWhile_le)

definition is_dash :: "char \<Rightarrow> bool" where
  "is_dash c \<longleftrightarrow> c = CHR ''-''"

definition normalizeNodeKey :: "string \<Rightarrow> string" where
  \<comment> \<open>\<open>value.toLowerCase().replace(/[^a-z0-9]+/g, "-").replace(/^-+/, "").replace(/-+$/, "")\<close>\<close>
  "normalizeNodeKey v =
     rev (dropWhile is_dash (rev (dropWhile is_dash (collapse_non_alnum (toLowerCase v)))))"

section \<open>The node directory\<close>

record NodeListNode =
  nodeId :: string
  displayName :: "string option"
  platform :: "string option"
  remoteIp :: "string option"
  caps :: "string list option"
  connected :: "bool option"

datatype PendingRequest =
  PendingRequest (requestId: string) (pendingNodeId: string)
    (pendingDisplayName: "string option") (pendingRemoteIp: "string option")

datatype PairedNode =
  PairedNode (pairedNodeId: string) (pairedDisplayName: "string option")
    (pairedRemoteIp: "string option")

datatype PairingList = PairingList (pending: "PendingRequest list") (paired: "PairedNode list")

text \<open>
  A gateway answer is an \<open>unknown\<close> value; the two parsers below read three of its
  properties, each an array or something else (\<open>None\<close>: the answer is no object, or the
  property is no array).
\<close>

datatype gw_value =
  GwValue (gw_nodes: "NodeListNode list option") (gw_pending: "PendingRequest list option")
    (gw_paired: "PairedNode list option")

definition parseNodeList :: "gw_value \<Rightarrow> NodeListNode list" where
  "parseNodeList v = (case gw_nodes v of Some ns \<Rightarrow> ns | None \<Rightarrow> [])"

definition parsePairingList :: "gw_value \<Rightarrow> PairingList" where
  "parsePairingList v =
     PairingList (case gw_pending v of Some ps \<Rightarrow> ps | None \<Rightarrow> [])
                 (case gw_paired v of Some ps \<Rightarrow> ps | None \<Rightarrow> [])"

subsection \<open>Exceptions and gateway calls\<close>

datatype exn =
  Error string \<comment> \<open>\<open>new Error(message)\<close>\<close>
| Thrown string \<comment> \<open>what a collaborator threw, by its \<open>String(err)\<close> text\<close>

fun String_exn :: "exn \<Rightarrow> string" where
  \<comment> \<open>\<open>String(err)\<close>\<close>
  "String_exn (Error m) = ''Error: '' @ m"
| "String_exn (Thrown s) = s"

datatype gw_params =
  EmptyParams \<comment> \<open>\<open>{}\<close>\<close>
| InvokeParams string string "(string \<times> string) list option" string
    \<comment> \<open>\<open>{ nodeId, command, params, idempotencyKey }\<close>\<close>

datatype gw_request = GwRequest string gw_params \<comment> \<open>\<open>method\<close> and \<open>params\<close>\<close>

type_synonym gateway = "gw_request \<Rightarrow> exn + gw_value"

text \<open>
  A computation that calls the gateway returns its result, or the exception it threw, and
  the calls it made, in order. The connection options (\<open>url\<close>, \<open>token\<close>,
  \<open>timeout\<close>) and the progress display of \<open>callGatewayCli\<close> are left out.
\<close>

type_synonym 'a gw_io = "(exn + 'a) \<times> gw_request list"

definition callGatewayCli :: "gateway \<Rightarrow> string \<Rightarrow> gw_params \<Rightarrow> gw_value gw_io" where
  "callGatewayCli gw method params = (gw (GwRequest method params), [GwRequest method params])"

definition paired_as_node :: "PairedNode \<Rightarrow> NodeListNode" where
  "paired_as_node n =
     \<lparr>nodeId = pairedNodeId n, displayName = pairedDisplayName n, platform = None,
      remoteIp = pairedRemoteIp n, caps = None, connected = None\<rparr>"

definition loadNodes :: "gateway \<Rightarrow> NodeListNode list gw_io" where
  "loadNodes gw =
     (case callGatewayCli gw ''node.list'' EmptyParams of
        (Inr res, t) \<Rightarrow> (Inr (parseNodeList res), t)
      | (Inl _, t) \<Rightarrow>
          (case callGatewayCli gw ''node.pair.list'' EmptyParams of
             (Inr res, t') \<Rightarrow> (Inr (map paired_as_node (paired (parsePairingList res))), t @ t')
           | (Inl e, t') \<Rightarrow> (Inl e, t @ t')))"

section \<open>Node resolution\<close>

definition has_canvas :: "NodeListNode \<Rightarrow> bool" where
  \<comment> \<open>\<open>Array.isArray(n.caps) ? n.caps.includes("canvas") : true\<close>\<close>
  "has_canvas n = (case caps n of Some cs \<Rightarrow> ''canvas'' \<in> set cs | None \<Rightarrow> True)"

definition is_connected :: "NodeListNode \<Rightarrow> bool" where
  \<comment> \<open>\<open>n.connected\<close> as a condition\<close>
  "is_connected n \<longleftrightarrow> connected n = Some True"

definition is_local_mac :: "NodeListNode \<Rightarrow> bool" where
  \<comment> \<open>\<open>n.platform?.toLowerCase().startsWith("mac") && typeof n.nodeId === "string" &&
      n.nodeId.startsWith("mac-")\<close>\<close>
  "is_local_mac n \<longleftrightarrow>
     (case platform n of Some p \<Rightarrow> startsWith (toLowerCase p) ''mac'' | None \<Rightarrow> False) \<and>
     startsWith (nodeId n) ''mac-''"

definition pickDefaultNode :: "NodeListNode list \<Rightarrow> NodeListNode option" where
  "pickDefaultNode nodes =
     (let withCanvas = filter has_canvas nodes in
      if length withCanvas = 0 then None
      else
        let connected = filter is_connected withCanvas;
            candidates = (if length connected > 0 then connected else withCanvas)
        in if length candidates = 1 then Some (hd candidates)
           else
             let local = filter is_local_mac candidates
             in if length local = 1 then Some (hd local) else None)"

datatype resolve_error =
  NodeRequired
| UnknownNode string "string list" \<comment> \<open>the query and the labels of the known nodes\<close>
| AmbiguousNode string "string list" \<comment> \<open>the query and the labels of the matches\<close>

definition node_label :: "NodeListNode \<Rightarrow> string" where
  \<comment> \<open>\<open>n.displayName || n.remoteIp || n.nodeId\<close>\<close>
  "node_label n =
     (case displayName n of
        Some d \<Rightarrow> if d \<noteq> [] then d
                  else (case remoteIp n of
                          Some r \<Rightarrow> if r \<noteq> [] then r else nodeId n
                        | None \<Rightarrow> nodeId n)
      | None \<Rightarrow> (case remoteIp n of
                   Some r \<Rightarrow> if r \<noteq> [] then r else nodeId n
                 | None \<Rightarrow> nodeId n))"

definition resolve_error_message :: "resolve_error \<Rightarrow> string" where
  "resolve_error_message e =
     (case e of
        NodeRequired \<Rightarrow>
          ''node required (use --node or ensure only one connected node is available)''
      | UnknownNode q labels \<Rightarrow>
          (let known = join '', '' labels
           in ''unknown node: '' @ q @ (if known \<noteq> [] then '' (known: '' @ known @ '')'' else []))
      | AmbiguousNode q labels \<Rightarrow>
          ''ambiguous node: '' @ q @ '' (matches: '' @ join '', '' labels @ '')'')"

definition node_matches :: "string \<Rightarrow> NodeListNode \<Rightarrow> bool" where
  \<comment> \<open>The filter of \<open>resolveNodeId\<close>, with \<open>qNorm = normalizeNodeKey(q)\<close>.\<close>
  "node_matches q n \<longleftrightarrow>
     nodeId n = q \<or>
     remoteIp n = Some q \<or>
     (case displayName n of
        Some name \<Rightarrow> name \<noteq> [] \<and> normalizeNodeKey name = normalizeNodeKey q
      | None \<Rightarrow> False) \<or>
     (length q \<ge> 6 \<and> startsWith (nodeId n) q)"

definition resolve_query :: "NodeListNode list \<Rightarrow> string \<Rightarrow> resolve_error + string" where
  \<comment> \<open>\<open>resolveNodeId\<close> from \<open>const qNorm = ...\<close> on: the path of a query \<open>q\<close> that is
      not empty.\<close>
  "resolve_query nodes q =
     (let matches = filter (node_matches q) nodes in
      if length matches = 1 then Inr (nodeId (hd matches))
      else if length matches = 0
        then Inl (UnknownNode q (filter (\<lambda>l. l \<noteq> []) (map node_label nodes)))
        else Inl (AmbiguousNode q (map node_label matches)))"

definition resolve_in :: "NodeListNode list \<Rightarrow> string option \<Rightarrow> resolve_error + string" where
  \<comment> \<open>\<open>resolveNodeId\<close> after \<open>const nodes = await loadNodes(opts)\<close>.\<close>
  "resolve_in nodes query =
     (let q = trim (case query of Some s \<Rightarrow> s | None \<Rightarrow> []) in
      if q = [] then
        (case pickDefaultNode nodes of
           Some picked \<Rightarrow> Inr (nodeId picked)
         | None \<Rightarrow> Inl NodeRequired)
      else resolve_query nodes q)"

definition resolveNodeId :: "gateway \<Rightarrow> string option \<Rightarrow> string gw_io" where
  "resolveNodeId gw query =
     (case loadNodes gw of
        (Inl e, t) \<Rightarrow> (Inl e, t)
      | (Inr nodes, t) \<Rightarrow>
          (case resolve_in nodes query of
             Inl e \<Rightarrow> (Inl (Error (resolve_error_message e)), t)
           | Inr n \<Rightarrow> (Inr n, t)))"

section \<open>The A2UI stream validator\<close>

datatype json =
  JNull
| JBool bool
| JNumber string \<comment> \<open>the numeral as written; its floating-point value is not used\<close>
| JString string
| JArray "json list"
| JObject "(string \<times> json) list" \<comment> \<open>the members, name and value\<close>

text \<open>
  \<open>JSON.parse\<close> belongs to the language, not to the repository: the validator takes it
  as a parameter, a function from the text to the value, or to the \<open>String(err)\<close> text of
  the \<open>SyntaxError\<close> it throws.
\<close>

type_synonym json_parser = "string \<Rightarrow> string + json"

definition A2UI_ACTION_KEYS :: "string list" where
  "A2UI_ACTION_KEYS =
     [''beginRendering'', ''surfaceUpdate'', ''dataModelUpdate'', ''deleteSurface'',
      ''createSurface'']"

datatype A2UIVersion = V08 | V09 \<comment> \<open>\<open>"v0.8" | "v0.9"\<close>\<close>

datatype violation =
  LineSyntax nat string \<comment> \<open>\<open>line ${idx + 1}: ${String(err)}\<close>\<close>
| LineNotObject nat \<comment> \<open>\<open>line ${idx + 1}: expected JSON object\<close>\<close>
| LineActionKeys nat \<comment> \<open>\<open>line ${idx + 1}: expected exactly one action key (...)\<close>\<close>
| NoMessages \<comment> \<open>\<open>no JSONL messages found\<close>\<close>
| MixedVersions \<comment> \<open>\<open>mixed A2UI v0.8 and v0.9 messages in one file\<close>\<close>

fun violation_text :: "violation \<Rightarrow> string" where
  \<comment> \<open>The string the source pushes onto \<open>errors\<close>.\<close>
  "violation_text (LineSyntax n err) = ''line '' @ string_of_nat n @ '': '' @ err"
| "violation_text (LineNotObject n) = ''line '' @ string_of_nat n @ '': expected JSON object''"
| "violation_text (LineActionKeys n) =
     ''line '' @ string_of_nat n @ '': expected exactly one action key ('' @
     join '', '' A2UI_ACTION_KEYS @ '')''"
| "violation_text NoMessages = ''no JSONL messages found''"
| "violation_text MixedVersions = ''mixed A2UI v0.8 and v0.9 messages in one file''"

fun violation_line :: "violation \<Rightarrow> nat option" where
  \<comment> \<open>The line number a violation is tagged with.\<close>
  "violation_line (LineSyntax n err) = Some n"
| "violation_line (LineNotObject n) = Some n"
| "violation_line (LineActionKeys n) = Some n"
| "violation_line NoMessages = None"
| "violation_line MixedVersions = None"

definition invalid_message :: "violation list \<Rightarrow> string" where
  \<comment> \<open>\<open>`Invalid A2UI JSONL:\n- ${errors.join("\n- ")}`\<close>\<close>
  "invalid_message errs =
     ''Invalid A2UI JSONL:'' @ [CHR 0x0A] @ ''- '' @
     join ([CHR 0x0A] @ ''- '') (map violation_text errs)"

record scan =
  errors :: "violation list"
  sawV08 :: bool
  sawV09 :: bool
  counted :: nat \<comment> \<open>the variable \<open>messageCount\<close>\<close>

datatype validation = Validation (version: A2UIVersion) (messageCount: nat)

definition action_keys_of :: "(string \<times> json) list \<Rightarrow> string list" where
  \<comment> \<open>\<open>A2UI_ACTION_KEYS.filter((key) => key in record)\<close>. The operator \<open>in\<close> also
      looks along the prototype chain, where no property has the name of an action key.\<close>
  "action_keys_of members = filter (\<lambda>key. key \<in> set (map fst members)) A2UI_ACTION_KEYS"

definition validate_line :: "json_parser \<Rightarrow> scan \<Rightarrow> nat \<times> string \<Rightarrow> scan" where
  \<comment> \<open>The callback of \<open>lines.forEach((line, idx) => ...)\<close>.\<close>
  "validate_line parse st il =
     (let idx = fst il; line = snd il; trimmed = trim line in
      if trimmed = [] then st
      else
        let st = st\<lparr>counted := counted st + 1\<rparr> in
        case parse trimmed of
          Inl err \<Rightarrow> st\<lparr>errors := errors st @ [LineSyntax (idx + 1) err]\<rparr>
        | Inr obj \<Rightarrow>
            (case obj of
               JObject members \<Rightarrow>
                 (let actionKeys = action_keys_of members in
                  if length actionKeys \<noteq> 1
                  then st\<lparr>errors := errors st @ [LineActionKeys (idx + 1)]\<rparr>
                  else if hd actionKeys = ''createSurface''
                  then st\<lparr>sawV09 := True\<rparr>
                  else st\<lparr>sawV08 := True\<rparr>)
             | _ \<Rightarrow> st\<lparr>errors := errors st @ [LineNotObject (idx + 1)]\<rparr>))"

definition scan_lines :: "json_parser \<Rightarrow> string list \<Rightarrow> scan" where
  "scan_lines parse lines =
     foldl (validate_line parse)
       \<lparr>errors = [], sawV08 = False, sawV09 = False, counted = 0\<rparr>
       (zip [0..<length lines] lines)"

definition validateA2UIJsonl :: "json_parser \<Rightarrow> string \<Rightarrow> violation list + validation" where
  \<comment> \<open>\<open>Inl errors\<close> is \<open>throw new Error(invalid_message errors)\<close>.\<close>
  "validateA2UIJsonl parse jsonl =
     (let lines = split_lines jsonl;
          st = scan_lines parse lines;
          st = (if counted st = 0 then st\<lparr>errors := errors st @ [NoMessages]\<rparr> else st);
          st = (if sawV08 st \<and> sawV09 st then st\<lparr>errors := errors st @ [MixedVersions]\<rparr>
                else st)
      in if length (errors st) > 0 then Inl (errors st)
         else Inr (Validation (if sawV09 st then V09 else V08) (counted st)))"

section \<open>The \<open>canvas a2ui push\<close> command\<close>

definition hex_digit :: "nat \<Rightarrow> char" where
  "hex_digit n = (if n < 10 then char_of (48 + n) else char_of (87 + n))"

definition JSON_quote_char :: "char \<Rightarrow> string" where
  "JSON_quote_char c =
     (let n = (of_char c :: nat) in
      if c = CHR 0x22 then [CHR 0x5C, CHR 0x22]
      else if c = CHR 0x5C then [CHR 0x5C, CHR 0x5C]
      else if n = 8 then [CHR 0x5C, CHR ''b'']
      else if n = 9 then [CHR 0x5C, CHR ''t'']
      else if n = 10 then [CHR 0x5C, CHR ''n'']
      else if n = 12 then [CHR 0x5C, CHR ''f'']
      else if n = 13 then [CHR 0x5C, CHR ''r'']
      else if n < 32 then [CHR 0x5C, CHR ''u'', CHR ''0'', CHR ''0'', hex_digit (n div 16),
                           hex_digit (n mod 16)]
      else [c])"

definition JSON_quote :: "string \<Rightarrow> string" where
  \<comment> \<open>\<open>JSON.stringify\<close> of a string\<close>
  "JSON_quote s = [CHR 0x22] @ concat (map JSON_quote_char s) @ [CHR 0x22]"

definition buildA2UITextJsonl :: "string \<Rightarrow> string" where
  "buildA2UITextJsonl text =
     join [CHR 0x0A]
       [''{'' @ JSON_quote ''surfaceUpdate'' @ '':{'' @
          JSON_quote ''surfaceId'' @ '':'' @ JSON_quote ''main'' @ '','' @
          JSON_quote ''components'' @ '':[{'' @
            JSON_quote ''id'' @ '':'' @ JSON_quote ''root'' @ '','' @
            JSON_quote ''component'' @ '':{'' @ JSON_quote ''Column'' @ '':{'' @
              JSON_quote ''children'' @ '':{'' @ JSON_quote ''explicitList'' @ '':['' @
              JSON_quote ''text'' @ '']}}}},{'' @
            JSON_quote ''id'' @ '':'' @ JSON_quote ''text'' @ '','' @
            JSON_quote ''component'' @ '':{'' @ JSON_quote ''Text'' @ '':{'' @
              JSON_quote ''text'' @ '':{'' @ JSON_quote ''literalString'' @ '':'' @
              JSON_quote text @ ''},'' @
              JSON_quote ''usageHint'' @ '':'' @ JSON_quote ''body'' @ ''}}}]}}'',
        ''{'' @ JSON_quote ''beginRendering'' @ '':{'' @
          JSON_quote ''surfaceId'' @ '':'' @ JSON_quote ''main'' @ '','' @
          JSON_quote ''root'' @ '':'' @ JSON_quote ''root'' @ ''}}'']"

record CanvasOpts =
  opt_json :: "bool option"
  opt_node :: "string option"
  opt_jsonl :: "string option"
  opt_text :: "string option"

definition invokeCanvas ::
  "gateway \<Rightarrow> string \<Rightarrow> CanvasOpts \<Rightarrow> string \<Rightarrow> (string \<times> string) list option \<Rightarrow> unit gw_io"
where
  \<comment> \<open>\<open>key\<close> is what \<open>randomIdempotencyKey()\<close> returns.\<close>
  "invokeCanvas gw key opts command params =
     (case resolveNodeId gw (opt_node opts) of
        (Inl e, t) \<Rightarrow> (Inl e, t)
      | (Inr node, t) \<Rightarrow>
          (case callGatewayCli gw ''node.invoke'' (InvokeParams node command params key) of
             (Inl e, t') \<Rightarrow> (Inl e, t @ t')
           | (Inr _, t') \<Rightarrow> (Inr (), t @ t')))"

record outcome =
  gateway_calls :: "gw_request list"
  logged :: "string list" \<comment> \<open>\<open>defaultRuntime.log\<close>\<close>
  reported :: "string list" \<comment> \<open>\<open>defaultRuntime.error\<close>\<close>
  exit_code :: "nat option" \<comment> \<open>\<open>defaultRuntime.exit\<close>\<close>

definition unsupported_version_message :: string where
  "unsupported_version_message =
     ''Detected A2UI v0.9 JSONL (createSurface). Clawdbot currently supports v0.8 only.''"

definition push_failed :: "gw_request list \<Rightarrow> exn \<Rightarrow> outcome" where
  \<comment> \<open>The \<open>catch (err)\<close> block of the action.\<close>
  "push_failed t err =
     \<lparr>gateway_calls = t, logged = [],
      reported = [''canvas a2ui push failed: '' @ String_exn err], exit_code = Some 1\<rparr>"

definition a2ui_push ::
  "gateway \<Rightarrow> (string \<Rightarrow> exn + string) \<Rightarrow> json_parser \<Rightarrow> string \<Rightarrow> CanvasOpts \<Rightarrow> outcome"
where
  \<comment> \<open>The action of \<open>canvas a2ui push\<close>; \<open>readFile\<close> is \<open>fs.readFile(path, "utf8")\<close>.\<close>
  "a2ui_push gw readFile parse key opts =
     (let hasJsonl = (case opt_jsonl opts of Some p \<Rightarrow> p \<noteq> [] | None \<Rightarrow> False);
          hasText = (opt_text opts \<noteq> None)
      in if hasJsonl = hasText
         then push_failed [] (Error ''provide exactly one of --jsonl or --text'')
         else
           case (if hasText
                 then Inr (buildA2UITextJsonl (case opt_text opts of Some t \<Rightarrow> t | None \<Rightarrow> []))
                 else readFile (case opt_jsonl opts of Some p \<Rightarrow> p | None \<Rightarrow> [])) of
             Inl e \<Rightarrow> push_failed [] e
           | Inr jsonl \<Rightarrow>
               (case validateA2UIJsonl parse jsonl of
                  Inl errs \<Rightarrow> push_failed [] (Error (invalid_message errs))
                | Inr v \<Rightarrow>
                    if version v = V09
                    then push_failed [] (Error unsupported_version_message)
                    else
                      (case invokeCanvas gw key opts ''canvas.a2ui.pushJSONL''
                              (Some [(''jsonl'', jsonl)]) of
                         (Inl e, t) \<Rightarrow> push_failed t e
                       | (Inr _, t) \<Rightarrow>
                           \<lparr>gateway_calls = t,
                            logged =
                              (if opt_json opts = Some True then []
                               else [''canvas a2ui push ok (v0.8, '' @
                                     string_of_nat (messageCount v) @ '' message'' @
                                     (if messageCount v = 1 then [] else ''s'') @ '')'']),
                            reported = [], exit_code = None\<rparr>)))"

section \<open>A parser for JSON texts\<close>

text \<open>
  The grammar of ECMA-404, which \<open>JSON.parse\<close> accepts: a lexer that reads the text one
  character at a time, and a parser that reads the tokens one at a time with a stack of the
  open arrays and objects. It gives the validator a concrete parser to run on concrete
  payloads; the theorems on the validator hold for every parser. The text of the error is
  the engine's and is not modelled. An escape \<open>\u....\<close> that names a code unit from
  256 on is outside the strings of this model and is reported as such. The members of an
  object are listed as written; JavaScript keeps the last value of a repeated name, and the
  validator reads only which names are present.
\<close>

datatype token =
  TLBrace | TRBrace | TLBracket | TRBracket | TColon | TComma
| TString string | TNumber string | TTrue | TFalse | TNull

datatype lex_state =
  LIdle
| LWord string
| LStr string
| LEsc string
| LUni string string

definition syntax_error :: string where
  "syntax_error = ''SyntaxError''"

definition is_json_ws :: "char \<Rightarrow> bool" where
  "is_json_ws c \<longleftrightarrow> (of_char c :: nat) \<in> {9, 10, 13, 32}"

definition is_digit :: "char \<Rightarrow> bool" where
  "is_digit c \<longleftrightarrow> (let n = (of_char c :: nat) in 48 \<le> n \<and> n \<le> 57)"

definition is_word_char :: "char \<Rightarrow> bool" where
  "is_word_char c \<longleftrightarrow>
     (let n = (of_char c :: nat)
      in (48 \<le> n \<and> n \<le> 57) \<or> (97 \<le> n \<and> n \<le> 122) \<or> (65 \<le> n \<and> n \<le> 90) \<or>
         n = 43 \<or> n = 45 \<or> n = 46)"

definition hex_value :: "char \<Rightarrow> nat option" where
  "hex_value c =
     (let n = (of_char c :: nat)
      in if 48 \<le> n \<and> n \<le> 57 then Some (n - 48)
         else if 97 \<le> n \<and> n \<le> 102 then Some (n - 87)
         else if 65 \<le> n \<and> n \<le> 70 then Some (n - 55)
         else None)"

definition punct :: "char \<Rightarrow> token option" where
  "punct c =
     (if c = CHR ''{'' then Some TLBrace else if c = CHR ''}'' then Some TRBrace
      else if c = CHR ''['' then Some TLBracket else if c = CHR '']'' then Some TRBracket
      else if c = CHR '':'' then Some TColon else if c = CHR '','' then Some TComma
      else None)"

definition num_int :: "string \<Rightarrow> string option" where
  "num_int s =
     (case s of
        [] \<Rightarrow> None
      | c # r \<Rightarrow> if c = CHR ''0'' then Some r
                 else if is_digit c then Some (dropWhile is_digit r) else None)"

definition num_frac :: "string \<Rightarrow> string option" where
  "num_frac s =
     (case s of
        [] \<Rightarrow> Some []
      | c # r \<Rightarrow>
          if c = CHR ''.'' then
            (case r of
               [] \<Rightarrow> None
             | d # r' \<Rightarrow> if is_digit d then Some (dropWhile is_digit r') else None)
          else Some s)"

definition num_exp :: "string \<Rightarrow> string option" where
  "num_exp s =
     (case s of
        [] \<Rightarrow> Some []
      | c # r \<Rightarrow>
          if c = CHR ''e'' \<or> c = CHR ''E'' then
            (case (case r of
                     [] \<Rightarrow> []
                   | g # r' \<Rightarrow> if g = CHR ''+'' \<or> g = CHR ''-'' then r' else r) of
               [] \<Rightarrow> None
             | d # r' \<Rightarrow> if is_digit d then Some (dropWhile is_digit r') else None)
          else Some s)"

definition is_json_number :: "string \<Rightarrow> bool" where
  "is_json_number s =
     (case num_int (case s of [] \<Rightarrow> [] | c # r \<Rightarrow> if c = CHR ''-'' then r else s) of
        None \<Rightarrow> False
      | Some r \<Rightarrow>
          (case num_frac r of
             None \<Rightarrow> False
           | Some r' \<Rightarrow> num_exp r' = Some []))"

definition classify_word :: "string \<Rightarrow> token option" where
  "classify_word w =
     (if w = ''true'' then Some TTrue
      else if w = ''false'' then Some TFalse
      else if w = ''null'' then Some TNull
      else if is_json_number w then Some (TNumber w)
      else None)"

definition lex_idle :: "token list \<Rightarrow> char \<Rightarrow> string + lex_state \<times> token list" where
  "lex_idle acc c =
     (if is_json_ws c then Inr (LIdle, acc)
      else case punct c of
             Some t \<Rightarrow> Inr (LIdle, t # acc)
           | None \<Rightarrow>
               if c = CHR 0x22 then Inr (LStr [], acc)
               else if is_word_char c then Inr (LWord [c], acc)
               else Inl syntax_error)"

definition unescape :: "char \<Rightarrow> char option" where
  "unescape c =
     (if c = CHR 0x22 \<or> c = CHR 0x5C \<or> c = CHR ''/'' then Some c
      else if c = CHR ''b'' then Some (CHR 0x08)
      else if c = CHR ''f'' then Some (CHR 0x0C)
      else if c = CHR ''n'' then Some (CHR 0x0A)
      else if c = CHR ''r'' then Some (CHR 0x0D)
      else if c = CHR ''t'' then Some (CHR 0x09)
      else None)"

definition lex_step :: "lex_state \<times> token list \<Rightarrow> char \<Rightarrow> string + lex_state \<times> token list" where
  "lex_step sa c =
     (let acc = snd sa in
      case fst sa of
        LIdle \<Rightarrow> lex_idle acc c
      | LWord w \<Rightarrow>
          if is_word_char c then Inr (LWord (c # w), acc)
          else (case classify_word (rev w) of
                  None \<Rightarrow> Inl syntax_error
                | Some t \<Rightarrow> lex_idle (t # acc) c)
      | LStr s \<Rightarrow>
          if c = CHR 0x22 then Inr (LIdle, TString (rev s) # acc)
          else if c = CHR 0x5C then Inr (LEsc s, acc)
          else if (of_char c :: nat) < 32 then Inl syntax_error
          else Inr (LStr (c # s), acc)
      | LEsc s \<Rightarrow>
          if c = CHR ''u'' then Inr (LUni s [], acc)
          else (case unescape c of
                  Some d \<Rightarrow> Inr (LStr (d # s), acc)
                | None \<Rightarrow> Inl syntax_error)
      | LUni s h \<Rightarrow>
          (case hex_value c of
             None \<Rightarrow> Inl syntax_error
           | Some _ \<Rightarrow>
               if length h < 3 then Inr (LUni s (c # h), acc)
               else
                 (let n = foldl (\<lambda>v d. 16 * v + (case hex_value d of Some k \<Rightarrow> k | None \<Rightarrow> 0))
                            0 (rev (c # h))
                  in if n < 256 then Inr (LStr (char_of n # s), acc)
                     else Inl ''code unit beyond the model'')))"

fun lex_all :: "lex_state \<times> token list \<Rightarrow> string \<Rightarrow> string + token list" where
  "lex_all sa [] =
     (case fst sa of
        LIdle \<Rightarrow> Inr (rev (snd sa))
      | LWord w \<Rightarrow>
          (case classify_word (rev w) of
             Some t \<Rightarrow> Inr (rev (t # snd sa))
           | None \<Rightarrow> Inl syntax_error)
      | _ \<Rightarrow> Inl syntax_error)"
| "lex_all sa (c # cs) =
     (case lex_step sa c of
        Inl e \<Rightarrow> Inl e
      | Inr sa' \<Rightarrow> lex_all sa' cs)"

datatype frame =
  FArr "json list"
| FObj "(string \<times> json) list"
| FKey string

datatype expect = EValue | EValueOrEnd | EKeyOrEnd | EKey | EColon string | ESep | EDone json

definition deliver :: "json \<Rightarrow> frame list \<Rightarrow> string + expect \<times> frame list" where
  "deliver v stack =
     (case stack of
        [] \<Rightarrow> Inr (EDone v, [])
      | FArr es # st \<Rightarrow> Inr (ESep, FArr (v # es) # st)
      | FKey k # FObj ms # st \<Rightarrow> Inr (ESep, FObj ((k, v) # ms) # st)
      | _ \<Rightarrow> Inl syntax_error)"

definition close_array :: "frame list \<Rightarrow> string + expect \<times> frame list" where
  "close_array stack =
     (case stack of
        FArr es # st \<Rightarrow> deliver (JArray (rev es)) st
      | _ \<Rightarrow> Inl syntax_error)"

definition close_object :: "frame list \<Rightarrow> string + expect \<times> frame list" where
  "close_object stack =
     (case stack of
        FObj ms # st \<Rightarrow> deliver (JObject (rev ms)) st
      | _ \<Rightarrow> Inl syntax_error)"

definition start_value :: "token \<Rightarrow> frame list \<Rightarrow> string + expect \<times> frame list" where
  "start_value t stack =
     (case t of
        TLBracket \<Rightarrow> Inr (EValueOrEnd, FArr [] # stack)
      | TLBrace \<Rightarrow> Inr (EKeyOrEnd, FObj [] # stack)
      | TString s \<Rightarrow> deliver (JString s) stack
      | TNumber n \<Rightarrow> deliver (JNumber n) stack
      | TTrue \<Rightarrow> deliver (JBool True) stack
      | TFalse \<Rightarrow> deliver (JBool False) stack
      | TNull \<Rightarrow> deliver JNull stack
      | _ \<Rightarrow> Inl syntax_error)"

definition parse_step :: "expect \<times> frame list \<Rightarrow> token \<Rightarrow> string + expect \<times> frame list" where
  "parse_step es t =
     (let stack = snd es in
      case fst es of
        EValue \<Rightarrow> start_value t stack
      | EValueOrEnd \<Rightarrow> if t = TRBracket then close_array stack else start_value t stack
      | EKeyOrEnd \<Rightarrow>
          (case t of
             TString k \<Rightarrow> Inr (EColon k, stack)
           | TRBrace \<Rightarrow> close_object stack
           | _ \<Rightarrow> Inl syntax_error)
      | EKey \<Rightarrow> (case t of TString k \<Rightarrow> Inr (EColon k, stack) | _ \<Rightarrow> Inl syntax_error)
      | EColon k \<Rightarrow> if t = TColon then Inr (EValue, FKey k # stack) else Inl syntax_error
      | ESep \<Rightarrow>
          (case t of
             TComma \<Rightarrow>
               (case stack of
                  FArr es # st \<Rightarrow> Inr (EValue, stack)
                | FObj ms # st \<Rightarrow> Inr (EKey, stack)
                | _ \<Rightarrow> Inl syntax_error)
           | TRBracket \<Rightarrow> close_array stack
           | TRBrace \<Rightarrow> close_object stack
           | _ \<Rightarrow> Inl syntax_error)
      | EDone v \<Rightarrow> Inl syntax_error)"

fun parse_tokens :: "expect \<times> frame list \<Rightarrow> token list \<Rightarrow> string + json" where
  "parse_tokens es [] = (case fst es of EDone v \<Rightarrow> Inr v | _ \<Rightarrow> Inl syntax_error)"
| "parse_tokens es (t # ts) =
     (case parse_step es t of
        Inl e \<Rightarrow> Inl e
      | Inr es' \<Rightarrow> parse_tokens es' ts)"

definition JSON_parse :: json_parser where
  "JSON_parse s =
     (case lex_all (LIdle, []) s of
        Inl e \<Rightarrow> Inl e
      | Inr ts \<Rightarrow> parse_tokens (EValue, []) ts)"

section \<open>What the validator reports, line by line\<close>

text \<open>
  The violation that the line numbered \<open>n\<close> contributes: none when the line is blank or
  is an object with exactly one of the five action keys among its names; else the one of
  its first defect, tagged with \<open>n\<close>.
\<close>

definition line_defect :: "json_parser \<Rightarrow> nat \<Rightarrow> string \<Rightarrow> violation option" where
  "line_defect parse n line =
     (if trim line = [] then None
      else case parse (trim line) of
             Inl err \<Rightarrow> Some (LineSyntax n err)
           | Inr (JObject members) \<Rightarrow>
               if card (set A2UI_ACTION_KEYS \<inter> fst ` set members) = 1 then None
               else Some (LineActionKeys n)
           | Inr _ \<Rightarrow> Some (LineNotObject n))"

text \<open>The protocol version that a line marks the stream with, when it has no defect.\<close>

definition line_version :: "json_parser \<Rightarrow> string \<Rightarrow> A2UIVersion option" where
  "line_version parse line =
     (if trim line = [] then None
      else case parse (trim line) of
             Inr (JObject members) \<Rightarrow>
               if card (set A2UI_ACTION_KEYS \<inter> fst ` set members) = 1
               then Some (if ''createSurface'' \<in> fst ` set members then V09 else V08)
               else None
           | _ \<Rightarrow> None)"

text \<open>The action key of a line that is an object with exactly one action key.\<close>

definition line_action_key :: "json_parser \<Rightarrow> string \<Rightarrow> string option" where
  "line_action_key parse line =
     (if trim line = [] then None
      else case parse (trim line) of
             Inr (JObject members) \<Rightarrow>
               (case filter (\<lambda>key. key \<in> fst ` set members) A2UI_ACTION_KEYS of
                  [key] \<Rightarrow> Some key
                | _ \<Rightarrow> None)
           | _ \<Rightarrow> None)"

definition line_violations :: "json_parser \<Rightarrow> string list \<Rightarrow> violation list" where
  \<comment> \<open>The violations of the lines, in line order; line \<open>i\<close> of the list is numbered
      \<open>i + 1\<close>.\<close>
  "line_violations parse lines =
     List.map_filter (\<lambda>i. line_defect parse (i + 1) (lines ! i)) [0..<length lines]"

definition stream_violations :: "json_parser \<Rightarrow> string list \<Rightarrow> violation list" where
  \<comment> \<open>The violations of the stream as a whole: no message at all, both versions seen.\<close>
  "stream_violations parse lines =
     (if \<forall>l\<in>set lines. trim l = [] then [NoMessages] else []) @
     (if (\<exists>l\<in>set lines. line_version parse l = Some V08) \<and>
         (\<exists>l\<in>set lines. line_version parse l = Some V09)
      then [MixedVersions] else [])"

definition step_errors :: "json_parser \<Rightarrow> nat \<times> string \<Rightarrow> violation list" where
  "step_errors parse il =
     (case line_defect parse (fst il + 1) (snd il) of None \<Rightarrow> [] | Some v \<Rightarrow> [v])"

text \<open>
  The strings that \<open>normalizeNodeKey\<close> returns: letters, digits and dashes, each dash
  between two letters or digits or at the end of the string.
\<close>

fun slug_ok :: "string \<Rightarrow> bool" where
  "slug_ok [] = True"
| "slug_ok [c] = (is_alnum_lower c \<or> is_dash c)"
| "slug_ok (c # d # cs) =
     ((is_alnum_lower c \<or> (is_dash c \<and> is_alnum_lower d)) \<and> slug_ok (d # cs))"

section \<open>The hypotheses of the properties, as predicates\<close>

text \<open>The lines of a payload that are not blank, in order.\<close>

definition nonblank_lines :: "string \<Rightarrow> string list" where
  "nonblank_lines jsonl = filter (\<lambda>l. trim l \<noteq> []) (split_lines jsonl)"

text \<open>Every line that is not blank is an object with exactly one action key.\<close>

definition single_action_lines :: "json_parser \<Rightarrow> string \<Rightarrow> bool" where
  "single_action_lines parse jsonl \<longleftrightarrow>
     (\<forall>l\<in>set (nonblank_lines jsonl). line_action_key parse l \<noteq> None)"

definition version_A_keys :: "string list" where
  "version_A_keys = [''beginRendering'', ''surfaceUpdate'', ''dataModelUpdate'', ''deleteSurface'']"

text \<open>Every action key of the payload is one of the four keys of version 0.8.\<close>

definition only_version_A :: "json_parser \<Rightarrow> string \<Rightarrow> bool" where
  "only_version_A parse jsonl \<longleftrightarrow>
     (\<forall>l\<in>set (nonblank_lines jsonl).
        case line_action_key parse l of Some k \<Rightarrow> k \<in> set version_A_keys | None \<Rightarrow> True)"

text \<open>Some line of the payload has the action key \<open>k\<close>.\<close>

definition uses_key :: "json_parser \<Rightarrow> string \<Rightarrow> string \<Rightarrow> bool" where
  "uses_key parse jsonl k \<longleftrightarrow> (\<exists>l\<in>set (nonblank_lines jsonl). line_action_key parse l = Some k)"

text \<open>
  The payload that \<open>canvas a2ui push\<close> validates: what \<open>--jsonl\<close> names and
  \<open>fs.readFile\<close> returns, or what \<open>buildA2UITextJsonl\<close> builds from \<open>--text\<close>.
\<close>

definition push_payload :: "(string \<Rightarrow> exn + string) \<Rightarrow> CanvasOpts \<Rightarrow> string \<Rightarrow> bool" where
  "push_payload readFile opts payload \<longleftrightarrow>
     (opt_text opts = None \<and>
      (\<exists>path. opt_jsonl opts = Some path \<and> path \<noteq> [] \<and> readFile path = Inr payload)) \<or>
     ((opt_jsonl opts = None \<or> opt_jsonl opts = Some []) \<and>
      (\<exists>t. opt_text opts = Some t \<and> payload = buildA2UITextJsonl t))"

text \<open>
  The candidates of \<open>pickDefaultNode\<close>: the connected nodes with a canvas when there are
  any, else the nodes with a canvas.
\<close>

definition default_candidates :: "NodeListNode list \<Rightarrow> NodeListNode list" where
  "default_candidates nodes =
     (if filter is_connected (filter has_canvas nodes) \<noteq> []
      then filter is_connected (filter has_canvas nodes)
      else filter has_canvas nodes)"

section \<open>Payloads and directories to run the program on\<close>

definition scenario_A :: string where
  "scenario_A =
     ''{\"beginRendering\":{\"surfaceId\":\"main\",\"root\":\"root\"}}'' @ [CHR 0x0A] @
     ''{\"surfaceUpdate\":{\"surfaceId\":\"main\",\"components\":[]}}''"

definition scenario_B :: string where
  "scenario_B = ''{\"createSurface\":{}}'' @ [CHR 0x0A] @ ''{\"beginRendering\":{}}''"

definition defective_payload :: string where
  "defective_payload =
     ''{\"beginRendering\":{}}'' @ [CHR 0x0A] @
     ''{\"beginRendering\":'' @ [CHR 0x0D, CHR 0x0A] @
     ''   '' @ [CHR 0x0A] @
     ''{\"surfaceUpdate\":{}}'' @ [CHR 0x0A] @
     ''[1, 2]'' @ [CHR 0x0A] @
     ''{\"createSurface\":{},\"deleteSurface\":{}}'' @ [CHR 0x0A] @
     ''{\"createSurface\":{}}''"

definition malformed_payload :: string where
  "malformed_payload = ''{beginRendering}'' @ [CHR 0x0A] @ [CHR 0x0A] @ ''not json''"

definition blank_payload :: string where
  "blank_payload = [CHR 0x0A] @ ''  '' @ [CHR 0x0D, CHR 0x0A] @ [CHR 0x09]"

definition createSurface_payload :: string where
  "createSurface_payload = ''{\"createSurface\":{\"surfaceId\":\"main\"}}'' @ [CHR 0x0A]"

definition createSurface_opts :: CanvasOpts where
  "createSurface_opts =
     \<lparr>opt_json = None, opt_node = None, opt_jsonl = Some ''ui.jsonl'', opt_text = None\<rparr>"

definition createSurface_file :: "string \<Rightarrow> exn + string" where
  "createSurface_file path =
     (if path = ''ui.jsonl'' then Inr createSurface_payload else Inl (Thrown ''ENOENT''))"

definition offline_gateway :: gateway where
  "offline_gateway request = Inl (Thrown ''gateway not reachable'')"

definition studio_mac :: NodeListNode where
  "studio_mac =
     \<lparr>nodeId = ''mac-123456'', displayName = Some ''Studio Mac'', platform = Some ''macOS'',
      remoteIp = Some ''10.0.0.5'', caps = Some [''canvas''], connected = Some True\<rparr>"

definition office_pc :: NodeListNode where
  "office_pc =
     \<lparr>nodeId = ''pc-7'', displayName = None, platform = Some ''windows'',
      remoteIp = None, caps = Some [''canvas''], connected = Some False\<rparr>"

definition lab_pc :: NodeListNode where
  "lab_pc =
     \<lparr>nodeId = ''pc-8'', displayName = Some ''PC 7'', platform = Some ''linux'',
      remoteIp = None, caps = None, connected = None\<rparr>"

definition camera_node :: NodeListNode where
  "camera_node =
     \<lparr>nodeId = ''cam-1'', displayName = None, platform = None,
      remoteIp = None, caps = Some [''camera''], connected = Some True\<rparr>"

section \<open>Normalization of node keys\<close>

lemma dash_not_alnum: "is_dash c \<Longrightarrow> \<not> is_alnum_lower c"
  by (simp add: is_dash_def is_alnum_lower_def)

lemma collapse_head:
  "collapse_non_alnum (dropWhile (\<lambda>d. \<not> is_alnum_lower d) cs) = [] \<or>
   is_alnum_lower (hd (collapse_non_alnum (dropWhile (\<lambda>d. \<not> is_alnum_lower d) cs)))"
proof -
  define ys where "ys = dropWhile (\<lambda>d. \<not> is_alnum_lower d) cs"
  have hd: "ys = [] \<or> is_alnum_lower (hd ys)"
    unfolding ys_def using hd_dropWhile[of "\<lambda>d. \<not> is_alnum_lower d" cs] by blast
  have "collapse_non_alnum ys = [] \<or> is_alnum_lower (hd (collapse_non_alnum ys))"
  proof (cases ys)
    case Nil
    then show ?thesis by simp
  next
    case (Cons a as)
    with hd have "is_alnum_lower a" by simp
    then show ?thesis unfolding Cons by simp
  qed
  then show ?thesis by (simp only: ys_def)
qed

lemma slug_ok_cons_dash:
  assumes "slug_ok xs" and "xs = [] \<or> is_alnum_lower (hd xs)"
  shows "slug_ok (CHR ''-'' # xs)"
proof (cases xs)
  case Nil
  then show ?thesis by (simp add: is_dash_def)
next
  case (Cons a as)
  with assms show ?thesis by (simp add: is_dash_def)
qed

lemma slug_ok_cons_alnum:
  assumes "slug_ok xs" and "is_alnum_lower c"
  shows "slug_ok (c # xs)"
proof (cases xs)
  case Nil
  with assms show ?thesis by simp
next
  case (Cons a as)
  with assms show ?thesis by simp
qed

lemma slug_ok_collapse: "slug_ok (collapse_non_alnum xs)"
proof (induction xs rule: collapse_non_alnum.induct)
  case 1
  then show ?case by simp
next
  case (2 c cs)
  show ?case
  proof (cases "is_alnum_lower c")
    case True
    with 2 show ?thesis by (simp add: slug_ok_cons_alnum)
  next
    case False
    with 2 collapse_head[of cs] show ?thesis by (simp add: slug_ok_cons_dash)
  qed
qed

lemma slug_ok_tl: "slug_ok (c # cs) \<Longrightarrow> slug_ok cs"
  by (cases cs) auto

lemma slug_ok_dropWhile: "slug_ok xs \<Longrightarrow> slug_ok (dropWhile P xs)"
  by (induction xs) (auto dest: slug_ok_tl)

lemma slug_ok_prefix: "slug_ok (xs @ ys) \<Longrightarrow> slug_ok xs"
proof (induction xs rule: slug_ok.induct)
  case 1
  then show ?case by simp
next
  case (2 c)
  then show ?case by (cases ys) auto
next
  case (3 c d cs)
  then show ?case by auto
qed

lemma strip_end_split: "rev (dropWhile P (rev xs)) @ rev (takeWhile P (rev xs)) = xs"
proof -
  have "rev (dropWhile P (rev xs)) @ rev (takeWhile P (rev xs)) =
        rev (takeWhile P (rev xs) @ dropWhile P (rev xs))"
    by (rule rev_append[symmetric])
  also have "\<dots> = xs" by simp
  finally show ?thesis .
qed

lemma slug_ok_strip_end:
  assumes "slug_ok xs"
  shows "slug_ok (rev (dropWhile P (rev xs)))"
proof -
  from assms have "slug_ok (rev (dropWhile P (rev xs)) @ rev (takeWhile P (rev xs)))"
    by (simp only: strip_end_split)
  then show ?thesis by (rule slug_ok_prefix)
qed

lemma slug_ok_normalize: "slug_ok (normalizeNodeKey s)"
  unfolding normalizeNodeKey_def
  by (intro slug_ok_strip_end slug_ok_dropWhile slug_ok_collapse)

lemma lower_alnum: "is_alnum_lower c \<Longrightarrow> toLowerCase_char c = c"
  by (auto simp: is_alnum_lower_def toLowerCase_char_def Let_def)

lemma lower_dash: "is_dash c \<Longrightarrow> toLowerCase_char c = c"
  by (auto simp: is_dash_def toLowerCase_char_def Let_def)

lemma slug_ok_lower: "slug_ok xs \<Longrightarrow> toLowerCase xs = xs"
  unfolding toLowerCase_def
  by (induction xs rule: slug_ok.induct) (auto simp: lower_alnum lower_dash)

lemma slug_ok_collapse_id: "slug_ok xs \<Longrightarrow> collapse_non_alnum xs = xs"
  by (induction xs rule: slug_ok.induct) (auto simp: dash_not_alnum is_dash_def)

lemma strip_end_keeps_head:
  assumes "\<not> P a"
  shows "\<exists>bs. rev (dropWhile P (rev (a # as))) = a # bs"
proof -
  have "\<exists>ws. dropWhile P (rev as @ [a]) = ws @ [a]"
  proof (cases "\<forall>x\<in>set (rev as). P x")
    case True
    then have "dropWhile P (rev as @ [a]) = dropWhile P [a]"
      by (intro dropWhile_append2) blast
    also have "\<dots> = [] @ [a]" using assms by simp
    finally show ?thesis by blast
  next
    case False
    then obtain x where "x \<in> set (rev as)" "\<not> P x" by blast
    then have "dropWhile P (rev as @ [a]) = dropWhile P (rev as) @ [a]"
      by (rule dropWhile_append1)
    then show ?thesis by blast
  qed
  then obtain ws where "dropWhile P (rev as @ [a]) = ws @ [a]" by blast
  then have "rev (dropWhile P (rev (a # as))) = a # rev ws" by simp
  then show ?thesis by blast
qed

lemma strip_front_idem:
  "dropWhile P (rev (dropWhile P (rev (dropWhile P xs)))) = rev (dropWhile P (rev (dropWhile P xs)))"
proof -
  define zs where "zs = dropWhile P xs"
  have hd: "zs \<noteq> [] \<Longrightarrow> \<not> P (hd zs)"
    unfolding zs_def by (rule hd_dropWhile)
  have "dropWhile P (rev (dropWhile P (rev zs))) = rev (dropWhile P (rev zs))"
  proof (cases zs)
    case Nil
    show ?thesis unfolding Nil by simp
  next
    case (Cons a as)
    with hd have na: "\<not> P a" by simp
    from strip_end_keeps_head[of P a as, OF na]
    obtain bs where eq: "rev (dropWhile P (rev (a # as))) = a # bs" ..
    have "dropWhile P (a # bs) = a # bs" using na by simp
    then show ?thesis unfolding Cons eq .
  qed
  then show ?thesis unfolding zs_def .
qed

text \<open>
  Claim C5. Normalizing a node key twice gives what normalizing it once gives, for every
  string; and \<open>"My Node!!"\<close> and \<open>"my-node"\<close> have the same normal form.
\<close>

theorem normalizeNodeKey_idempotent:
  "normalizeNodeKey (normalizeNodeKey s) = normalizeNodeKey s \<and>
   normalizeNodeKey ''My Node!!'' = normalizeNodeKey ''my-node''"
proof
  let ?t = "normalizeNodeKey s"
  have ok: "slug_ok ?t" by (rule slug_ok_normalize)
  have 1: "collapse_non_alnum (toLowerCase ?t) = ?t"
    using ok by (simp add: slug_ok_lower slug_ok_collapse_id)
  have 2: "dropWhile is_dash ?t = ?t"
    unfolding normalizeNodeKey_def by (rule strip_front_idem)
  have 3: "rev (dropWhile is_dash (rev ?t)) = ?t"
    unfolding normalizeNodeKey_def by simp
  show "normalizeNodeKey ?t = ?t"
    by (subst (1) normalizeNodeKey_def) (simp only: 1 2 3)
next
  have "normalizeNodeKey ''My Node!!'' = ''my-node''" by code_simp
  moreover have "normalizeNodeKey ''my-node'' = ''my-node''" by code_simp
  ultimately show "normalizeNodeKey ''My Node!!'' = normalizeNodeKey ''my-node''" by simp
qed

section \<open>The validator in closed form\<close>

lemma distinct_action_keys: "distinct A2UI_ACTION_KEYS"
  by (simp add: A2UI_ACTION_KEYS_def)

lemma length_action_keys_of:
  "length (action_keys_of members) = card (set A2UI_ACTION_KEYS \<inter> fst ` set members)"
proof -
  have "distinct (action_keys_of members)"
    unfolding action_keys_of_def using distinct_action_keys by (rule distinct_filter)
  then have "length (action_keys_of members) = card (set (action_keys_of members))"
    by (simp add: distinct_card)
  also have "set (action_keys_of members) = set A2UI_ACTION_KEYS \<inter> fst ` set members"
    unfolding action_keys_of_def by auto
  finally show ?thesis .
qed

lemma hd_action_keys_of:
  assumes "length (action_keys_of members) = 1"
  shows "hd (action_keys_of members) = ''createSurface'' \<longleftrightarrow> ''createSurface'' \<in> fst ` set members"
proof -
  from assms obtain k where k: "action_keys_of members = [k]"
    by (cases "action_keys_of members") auto
  have mem: "\<And>x. x \<in> set (action_keys_of members) \<longleftrightarrow> x \<in> set A2UI_ACTION_KEYS \<and> x \<in> fst ` set members"
    unfolding action_keys_of_def by auto
  have cs: "''createSurface'' \<in> set A2UI_ACTION_KEYS" by (simp add: A2UI_ACTION_KEYS_def)
  show ?thesis
  proof
    assume "hd (action_keys_of members) = ''createSurface''"
    with k have "''createSurface'' \<in> set (action_keys_of members)" by simp
    with mem show "''createSurface'' \<in> fst ` set members" by blast
  next
    assume "''createSurface'' \<in> fst ` set members"
    with cs mem have "''createSurface'' \<in> set (action_keys_of members)" by blast
    with k show "hd (action_keys_of members) = ''createSurface''" by simp
  qed
qed

lemma validate_line_eq:
  "validate_line parse st il =
     \<lparr>errors = errors st @ step_errors parse il,
      sawV08 = (sawV08 st \<or> line_version parse (snd il) = Some V08),
      sawV09 = (sawV09 st \<or> line_version parse (snd il) = Some V09),
      counted = counted st + (if trim (snd il) = [] then 0 else 1)\<rparr>"
proof (cases "trim (snd il) = []")
  case True
  then show ?thesis
    by (simp add: validate_line_def step_errors_def line_defect_def line_version_def)
next
  case False
  show ?thesis
  proof (cases "parse (trim (snd il))")
    case (Inl err)
    with False show ?thesis
      by (simp add: validate_line_def step_errors_def line_defect_def line_version_def)
  next
    case (Inr obj)
    show ?thesis
    proof (cases obj)
      case (JObject members)
      show ?thesis
      proof (cases "length (action_keys_of members) = 1")
        case True
        with False Inr JObject hd_action_keys_of[OF True] show ?thesis
          by (simp add: validate_line_def step_errors_def line_defect_def line_version_def
              length_action_keys_of[symmetric])
      next
        case ne: False
        with False Inr JObject show ?thesis
          by (simp add: validate_line_def step_errors_def line_defect_def line_version_def
              length_action_keys_of[symmetric])
      qed
    qed (use False Inr in \<open>simp_all add: validate_line_def step_errors_def line_defect_def line_version_def\<close>)
  qed
qed

lemma foldl_validate_line:
  "foldl (validate_line parse) st ils =
     \<lparr>errors = errors st @ concat (map (step_errors parse) ils),
      sawV08 = (sawV08 st \<or> (\<exists>il\<in>set ils. line_version parse (snd il) = Some V08)),
      sawV09 = (sawV09 st \<or> (\<exists>il\<in>set ils. line_version parse (snd il) = Some V09)),
      counted = counted st + length (filter (\<lambda>il. trim (snd il) \<noteq> []) ils)\<rparr>"
proof (induction ils arbitrary: st)
  case Nil
  then show ?case by simp
next
  case (Cons il ils)
  show ?case
    by (simp only: foldl_Cons Cons.IH) (auto simp: validate_line_eq)
qed


lemma concat_step_errors:
  "concat (map (step_errors parse) ils) =
   List.map_filter (\<lambda>il. line_defect parse (fst il + 1) (snd il)) ils"
  by (induction ils) (auto simp: step_errors_def map_filter_simps split: option.splits)

lemma zip_upt_nth: "zip [0..<length xs] xs = map (\<lambda>i. (i, xs ! i)) [0..<length xs]"
  by (rule nth_equalityI) auto

lemma map_filter_map: "List.map_filter f (map g xs) = List.map_filter (f \<circ> g) xs"
  by (induction xs) (auto simp: map_filter_simps split: option.splits)

lemma line_violations_zip:
  "concat (map (step_errors parse) (zip [0..<length lines] lines)) = line_violations parse lines"
  unfolding concat_step_errors line_violations_def zip_upt_nth map_filter_map
  by (simp add: comp_def)

lemma set_zip_upt_snd: "snd ` set (zip [0..<length xs] xs) = set xs"
proof -
  have "snd ` set (zip [0..<length xs] xs) = set (map snd (zip [0..<length xs] xs))"
    by (simp only: set_map)
  also have "map snd (zip [0..<length xs] xs) = xs" by simp
  finally show ?thesis .
qed

lemma bex_zip_upt_snd:
  "(\<exists>il\<in>set (zip [0..<length xs] xs). P (snd il)) \<longleftrightarrow> (\<exists>l\<in>set xs. P l)"
proof -
  have "(\<exists>il\<in>set (zip [0..<length xs] xs). P (snd il)) \<longleftrightarrow>
        (\<exists>l\<in>snd ` set (zip [0..<length xs] xs). P l)"
    by (simp only: bex_simps(7))
  then show ?thesis by (simp only: set_zip_upt_snd)
qed

lemma filter_zip_upt_snd:
  "length (filter (\<lambda>il. P (snd il)) (zip [0..<length xs] xs)) = length (filter P xs)"
proof -
  have "length (filter (\<lambda>il. P (snd il)) (zip [0..<length xs] xs)) =
        length (map snd (filter (P \<circ> snd) (zip [0..<length xs] xs)))"
    by (simp add: comp_def)
  also have "\<dots> = length (filter P (map snd (zip [0..<length xs] xs)))"
    by (simp only: filter_map)
  also have "map snd (zip [0..<length xs] xs) = xs" by simp
  finally show ?thesis .
qed

lemma scan_lines_eq:
  "scan_lines parse lines =
     \<lparr>errors = line_violations parse lines,
      sawV08 = (\<exists>l\<in>set lines. line_version parse l = Some V08),
      sawV09 = (\<exists>l\<in>set lines. line_version parse l = Some V09),
      counted = length (filter (\<lambda>l. trim l \<noteq> []) lines)\<rparr>"
  unfolding scan_lines_def foldl_validate_line
  by (simp add: line_violations_zip
      bex_zip_upt_snd[of lines "\<lambda>l. line_version parse l = Some V08"]
      bex_zip_upt_snd[of lines "\<lambda>l. line_version parse l = Some V09"]
      filter_zip_upt_snd[of "\<lambda>l. trim l \<noteq> []" lines])

lemma validateA2UIJsonl_eq:
  "validateA2UIJsonl parse jsonl =
     (let lines = split_lines jsonl;
          errs = line_violations parse lines @ stream_violations parse lines
      in if errs \<noteq> [] then Inl errs
         else Inr (Validation (if \<exists>l\<in>set lines. line_version parse l = Some V09 then V09 else V08)
                     (length (filter (\<lambda>l. trim l \<noteq> []) lines))))"
  unfolding validateA2UIJsonl_def Let_def scan_lines_eq stream_violations_def
  by (auto simp: filter_empty_conv)

lemma set_map_filter: "set (List.map_filter f xs) = {y. \<exists>x\<in>set xs. f x = Some y}"
  by (induction xs) (auto simp: map_filter_simps split: option.splits)

lemma line_violations_iff:
  "v \<in> set (line_violations parse lines) \<longleftrightarrow>
   (\<exists>i<length lines. line_defect parse (i + 1) (lines ! i) = Some v)"
  unfolding line_violations_def set_map_filter by auto

lemma line_defect_tag: "line_defect parse n l = Some v \<Longrightarrow> violation_line v = Some n"
  by (auto simp: line_defect_def split: if_splits sum.splits json.splits)

lemma line_defect_not_stream:
  "line_defect parse n l = Some v \<Longrightarrow> v \<noteq> NoMessages \<and> v \<noteq> MixedVersions"
  by (auto simp: line_defect_def split: if_splits sum.splits json.splits)

lemma map_filter_tags:
  assumes "\<And>x v. f x = Some v \<Longrightarrow> g v = h x"
  shows "map g (List.map_filter f xs) = map h (filter (\<lambda>x. f x \<noteq> None) xs)"
  using assms by (induction xs) (auto simp: map_filter_simps split: option.splits)

lemma line_violations_tags:
  "map violation_line (line_violations parse lines) =
   map (\<lambda>i. Some (i + 1))
     (filter (\<lambda>i. line_defect parse (i + 1) (lines ! i) \<noteq> None) [0..<length lines])"
  unfolding line_violations_def
  by (rule map_filter_tags) (rule line_defect_tag)

lemma stream_violations_untagged:
  "v \<in> set (stream_violations parse lines) \<Longrightarrow> violation_line v = None"
  by (auto simp: stream_violations_def split: if_splits)

lemma line_defect_None_iff:
  "line_defect parse n l = None \<longleftrightarrow>
   trim l = [] \<or>
   (\<exists>members. parse (trim l) = Inr (JObject members) \<and>
      card (set A2UI_ACTION_KEYS \<inter> fst ` set members) = 1)"
  by (auto simp: line_defect_def split: if_splits sum.splits json.splits)

text \<open>
  Claim C1. The validator does not stop at the first defect. Every line that is not blank
  and fails to parse, or parses to something that is not an object (an array counts as
  not an object), or is an object that has not exactly one of the five action keys among
  its names, contributes its own violation, tagged with the number of the line, counted
  from 1. When there is any violation, of a line or of the stream, validation fails with
  all of them: those of the lines first, in line order, then those of the stream.
\<close>

theorem validate_collects_every_violation:
  "let lines = split_lines jsonl;
       per_line = line_violations parse lines;
       stream = stream_violations parse lines
   in (\<forall>i<length lines.
         line_defect parse (i + 1) (lines ! i) = None \<longleftrightarrow>
         trim (lines ! i) = [] \<or>
         (\<exists>members. parse (trim (lines ! i)) = Inr (JObject members) \<and>
            card (set A2UI_ACTION_KEYS \<inter> fst ` set members) = 1)) \<and>
      (\<forall>i<length lines. \<forall>v.
         line_defect parse (i + 1) (lines ! i) = Some v \<longrightarrow>
         v \<in> set per_line \<and> violation_line v = Some (i + 1)) \<and>
      map violation_line per_line =
        map (\<lambda>i. Some (i + 1))
          (filter (\<lambda>i. line_defect parse (i + 1) (lines ! i) \<noteq> None) [0..<length lines]) \<and>
      (\<forall>v\<in>set stream. violation_line v = None) \<and>
      (per_line @ stream \<noteq> [] \<longrightarrow> validateA2UIJsonl parse jsonl = Inl (per_line @ stream)) \<and>
      (per_line @ stream = [] \<longrightarrow> (\<exists>r. validateA2UIJsonl parse jsonl = Inr r))"
proof -
  let ?lines = "split_lines jsonl"
  have 1: "\<forall>i<length ?lines.
         line_defect parse (i + 1) (?lines ! i) = None \<longleftrightarrow>
         trim (?lines ! i) = [] \<or>
         (\<exists>members. parse (trim (?lines ! i)) = Inr (JObject members) \<and>
            card (set A2UI_ACTION_KEYS \<inter> fst ` set members) = 1)"
    by (simp only: line_defect_None_iff) simp
  have 2: "\<forall>i<length ?lines. \<forall>v.
         line_defect parse (i + 1) (?lines ! i) = Some v \<longrightarrow>
         v \<in> set (line_violations parse ?lines) \<and> violation_line v = Some (i + 1)"
    using line_violations_iff[of _ parse ?lines] line_defect_tag by blast
  have 3: "\<forall>v\<in>set (stream_violations parse ?lines). violation_line v = None"
    using stream_violations_untagged by blast
  have 4: "line_violations parse ?lines @ stream_violations parse ?lines \<noteq> [] \<longrightarrow>
        validateA2UIJsonl parse jsonl =
        Inl (line_violations parse ?lines @ stream_violations parse ?lines)"
    by (simp add: validateA2UIJsonl_eq Let_def)
  have 5: "line_violations parse ?lines @ stream_violations parse ?lines = [] \<longrightarrow>
        (\<exists>r. validateA2UIJsonl parse jsonl = Inr r)"
    by (simp add: validateA2UIJsonl_eq Let_def)
  show ?thesis
    unfolding Let_def using 1 2 3 4 5 line_violations_tags[of parse ?lines] by blast
qed

theorem validate_collects_every_violation_witness:
  "line_violations JSON_parse (split_lines defective_payload) =
     [LineSyntax 2 syntax_error, LineNotObject 5, LineActionKeys 6] \<and>
   stream_violations JSON_parse (split_lines defective_payload) = [MixedVersions] \<and>
   validateA2UIJsonl JSON_parse defective_payload =
     Inl [LineSyntax 2 syntax_error, LineNotObject 5, LineActionKeys 6, MixedVersions]"
proof -
  have 1: "line_violations JSON_parse (split_lines defective_payload) =
     [LineSyntax 2 syntax_error, LineNotObject 5, LineActionKeys 6]" by code_simp
  have 2: "stream_violations JSON_parse (split_lines defective_payload) = [MixedVersions]"
    by code_simp
  from validate_collects_every_violation[of defective_payload JSON_parse]
  have "line_violations JSON_parse (split_lines defective_payload) @
        stream_violations JSON_parse (split_lines defective_payload) \<noteq> [] \<longrightarrow>
        validateA2UIJsonl JSON_parse defective_payload =
        Inl (line_violations JSON_parse (split_lines defective_payload) @
             stream_violations JSON_parse (split_lines defective_payload))"
    unfolding Let_def by blast
  with 1 2 show ?thesis by simp
qed

lemma filter_keys_eq:
  "filter (\<lambda>key. key \<in> fst ` set members) A2UI_ACTION_KEYS = action_keys_of members"
  by (simp add: action_keys_of_def)

lemma line_action_key_Some:
  assumes "line_action_key parse l = Some k"
  shows "trim l \<noteq> [] \<and> line_defect parse n l = None \<and>
         line_version parse l = Some (if k = ''createSurface'' then V09 else V08)"
proof -
  from assms have nb: "trim l \<noteq> []"
    by (auto simp: line_action_key_def split: if_splits)
  from assms nb obtain members where p: "parse (trim l) = Inr (JObject members)"
    by (auto simp: line_action_key_def split: if_splits sum.splits json.splits)
  from assms nb p have k: "action_keys_of members = [k]"
    by (auto simp: line_action_key_def filter_keys_eq split: list.splits)
  then have len: "length (action_keys_of members) = 1" by simp
  then have card: "card (set A2UI_ACTION_KEYS \<inter> fst ` set members) = 1"
    by (simp add: length_action_keys_of)
  have "hd (action_keys_of members) = k" using k by simp
  with hd_action_keys_of[OF len]
  have cs: "''createSurface'' \<in> fst ` set members \<longleftrightarrow> k = ''createSurface''" by auto
  show ?thesis
    using nb p card cs by (simp add: line_defect_def line_version_def)
qed

lemma set_nonblank_lines:
  "l \<in> set (nonblank_lines jsonl) \<longleftrightarrow> l \<in> set (split_lines jsonl) \<and> trim l \<noteq> []"
  by (simp add: nonblank_lines_def)

lemma single_action_linesD:
  assumes "single_action_lines parse jsonl" and "l \<in> set (split_lines jsonl)"
      and "trim l \<noteq> []"
  shows "\<exists>k. line_action_key parse l = Some k"
proof -
  from assms(2,3) have "l \<in> set (nonblank_lines jsonl)" by (simp add: set_nonblank_lines)
  with assms(1) have "line_action_key parse l \<noteq> None"
    unfolding single_action_lines_def by blast
  then show ?thesis by blast
qed

lemma only_version_AD:
  assumes "only_version_A parse jsonl" and "l \<in> set (nonblank_lines jsonl)"
      and "line_action_key parse l = Some k"
  shows "k \<in> set version_A_keys"
proof -
  from assms(1,2)
  have "case line_action_key parse l of Some k \<Rightarrow> k \<in> set version_A_keys | None \<Rightarrow> True"
    unfolding only_version_A_def by blast
  with assms(3) show ?thesis by simp
qed

lemma line_defect_blank: "trim l = [] \<Longrightarrow> line_defect parse n l = None"
  by (simp add: line_defect_def)

lemma line_version_blank: "trim l = [] \<Longrightarrow> line_version parse l = None"
  by (simp add: line_version_def)

lemma line_violations_Nil:
  assumes "\<And>l n. l \<in> set lines \<Longrightarrow> line_defect parse n l = None"
  shows "line_violations parse lines = []"
proof -
  have none: "v \<notin> set (line_violations parse lines)" for v
  proof
    assume "v \<in> set (line_violations parse lines)"
    then obtain i where "i < length lines" "line_defect parse (i + 1) (lines ! i) = Some v"
      unfolding line_violations_iff by blast
    with assms[of "lines ! i" "i + 1"] show False by simp
  qed
  show ?thesis
  proof (cases "line_violations parse lines")
    case Nil
    then show ?thesis .
  next
    case (Cons v vs)
    with none[of v] show ?thesis by simp
  qed
qed

lemma single_action_no_line_violations:
  assumes "single_action_lines parse jsonl"
  shows "line_violations parse (split_lines jsonl) = []"
proof (rule line_violations_Nil)
  fix l n assume l: "l \<in> set (split_lines jsonl)"
  show "line_defect parse n l = None"
  proof (cases "trim l = []")
    case True
    then show ?thesis by (rule line_defect_blank)
  next
    case False
    with l assms obtain k where "line_action_key parse l = Some k"
      using single_action_linesD by blast
    then show ?thesis using line_action_key_Some by blast
  qed
qed

lemma single_action_version:
  assumes "single_action_lines parse jsonl" and "l \<in> set (split_lines jsonl)"
  shows "line_version parse l = Some v \<longleftrightarrow>
         (\<exists>k. line_action_key parse l = Some k \<and> v = (if k = ''createSurface'' then V09 else V08))"
proof (cases "trim l = []")
  case True
  then have "line_action_key parse l = None" by (simp add: line_action_key_def)
  with True show ?thesis by (simp add: line_version_blank)
next
  case False
  with assms obtain k where k: "line_action_key parse l = Some k"
    using single_action_linesD by blast
  from line_action_key_Some[OF k]
  have "line_version parse l = Some (if k = ''createSurface'' then V09 else V08)" by blast
  with k show ?thesis by auto
qed

lemma createSurface_not_A: "''createSurface'' \<notin> set version_A_keys"
  by (simp add: version_A_keys_def)

lemma only_version_A_stream:
  assumes wf: "single_action_lines parse jsonl"
      and ne: "nonblank_lines jsonl \<noteq> []"
      and a: "only_version_A parse jsonl"
  shows "validateA2UIJsonl parse jsonl = Inr (Validation V08 (length (nonblank_lines jsonl)))"
proof -
  let ?lines = "split_lines jsonl"
  have no9: "\<not> (\<exists>l\<in>set ?lines. line_version parse l = Some V09)"
  proof
    assume "\<exists>l\<in>set ?lines. line_version parse l = Some V09"
    then obtain l where l: "l \<in> set ?lines" and v: "line_version parse l = Some V09" by blast
    from single_action_version[OF wf l, of V09] v
    obtain k where k: "line_action_key parse l = Some k"
      and eq: "V09 = (if k = ''createSurface'' then V09 else V08)" by blast
    from eq have "k = ''createSurface''" by (auto split: if_splits)
    moreover from line_action_key_Some[OF k] l have "l \<in> set (nonblank_lines jsonl)"
      by (simp add: set_nonblank_lines)
    ultimately have "''createSurface'' \<in> set version_A_keys"
      using only_version_AD[OF a _ k] by simp
    with createSurface_not_A show False by simp
  qed
  from ne have nb: "\<not> (\<forall>l\<in>set ?lines. trim l = [])"
    by (auto simp: nonblank_lines_def filter_empty_conv)
  have "stream_violations parse ?lines = []"
    using no9 nb by (simp add: stream_violations_def)
  then show ?thesis
    using no9 single_action_no_line_violations[OF wf]
    by (simp add: validateA2UIJsonl_eq Let_def nonblank_lines_def)
qed

lemma mixed_stream:
  assumes wf: "single_action_lines parse jsonl"
      and b: "uses_key parse jsonl ''createSurface''"
      and a: "\<exists>k\<in>set version_A_keys. uses_key parse jsonl k"
  shows "validateA2UIJsonl parse jsonl = Inl [MixedVersions]"
proof -
  let ?lines = "split_lines jsonl"
  from b obtain l where l: "l \<in> set ?lines" "trim l \<noteq> []"
    and lk: "line_action_key parse l = Some ''createSurface''"
    by (auto simp: uses_key_def set_nonblank_lines)
  from line_action_key_Some[OF lk] have v9: "line_version parse l = Some V09" by simp
  from a obtain k m where k: "k \<in> set version_A_keys" and m: "m \<in> set ?lines"
    and mk: "line_action_key parse m = Some k"
    by (auto simp: uses_key_def set_nonblank_lines)
  from k createSurface_not_A have "k \<noteq> ''createSurface''" by auto
  with line_action_key_Some[OF mk] have v8: "line_version parse m = Some V08" by simp
  have "stream_violations parse ?lines = [MixedVersions]"
    using l v9 m v8 by (auto simp: stream_violations_def)
  then show ?thesis
    using single_action_no_line_violations[OF wf]
    by (simp add: validateA2UIJsonl_eq Let_def)
qed

lemma validate_empty: "validateA2UIJsonl parse [] = Inl [NoMessages]"
proof -
  have "line_violations parse [[]] = []"
    by (rule line_violations_Nil) (simp add: line_defect_def trim_def)
  moreover have "stream_violations parse [[]] = [NoMessages]"
    by (simp add: stream_violations_def line_version_def trim_def)
  ultimately show ?thesis by (simp add: validateA2UIJsonl_eq Let_def)
qed

lemma validate_success_count:
  assumes "validateA2UIJsonl parse jsonl = Inr r"
  shows "1 \<le> messageCount r \<and> messageCount r = length (nonblank_lines jsonl)"
proof -
  let ?lines = "split_lines jsonl"
  from assms have nil: "line_violations parse ?lines @ stream_violations parse ?lines = []"
    and r: "messageCount r = length (filter (\<lambda>l. trim l \<noteq> []) ?lines)"
    by (auto simp: validateA2UIJsonl_eq Let_def split: if_splits)
  from nil have "\<not> (\<forall>l\<in>set ?lines. trim l = [])"
    by (auto simp: stream_violations_def split: if_splits)
  then have "filter (\<lambda>l. trim l \<noteq> []) ?lines \<noteq> []" by (simp add: filter_empty_conv)
  then have "1 \<le> length (filter (\<lambda>l. trim l \<noteq> []) ?lines)"
    by (cases "filter (\<lambda>l. trim l \<noteq> []) ?lines") auto
  with r show ?thesis by (simp add: nonblank_lines_def)
qed

text \<open>
  Claim C2, amended. For every payload whose lines that are not blank are all objects
  with exactly one action key: if there is at least one such line and every action key is
  one of the four keys of version 0.8 (\<open>beginRendering\<close>, \<open>surfaceUpdate\<close>,
  \<open>dataModelUpdate\<close>, \<open>deleteSurface\<close>), validation succeeds with version 0.8 and a
  message count equal to the number of lines that are not blank; if some line has
  \<open>createSurface\<close> and some line has a key of version 0.8, validation fails with the
  mixed-versions violation.
\<close>

theorem version_A_streams_and_mixed_streams:
  assumes "single_action_lines parse jsonl"
  shows "(nonblank_lines jsonl \<noteq> [] \<and> only_version_A parse jsonl \<longrightarrow>
            validateA2UIJsonl parse jsonl = Inr (Validation V08 (length (nonblank_lines jsonl)))) \<and>
         (uses_key parse jsonl ''createSurface'' \<and> (\<exists>k\<in>set version_A_keys. uses_key parse jsonl k) \<longrightarrow>
            validateA2UIJsonl parse jsonl = Inl [MixedVersions])"
  using only_version_A_stream[OF assms] mixed_stream[OF assms] by blast

theorem version_A_streams_and_mixed_streams_witness:
  "single_action_lines JSON_parse scenario_A \<and> nonblank_lines scenario_A \<noteq> [] \<and>
   only_version_A JSON_parse scenario_A \<and>
   validateA2UIJsonl JSON_parse scenario_A = Inr (Validation V08 2) \<and>
   single_action_lines JSON_parse scenario_B \<and>
   uses_key JSON_parse scenario_B ''createSurface'' \<and>
   (\<exists>k\<in>set version_A_keys. uses_key JSON_parse scenario_B k) \<and>
   validateA2UIJsonl JSON_parse scenario_B = Inl [MixedVersions]"
proof -
  have a1: "single_action_lines JSON_parse scenario_A" by code_simp
  have a2: "nonblank_lines scenario_A \<noteq> []" by code_simp
  have a3: "only_version_A JSON_parse scenario_A" by code_simp
  have a4: "length (nonblank_lines scenario_A) = 2" by code_simp
  have b1: "single_action_lines JSON_parse scenario_B" by code_simp
  have b2: "uses_key JSON_parse scenario_B ''createSurface''" by code_simp
  have b3: "\<exists>k\<in>set version_A_keys. uses_key JSON_parse scenario_B k" by code_simp
  from version_A_streams_and_mixed_streams[OF a1] a2 a3 a4
  have A: "validateA2UIJsonl JSON_parse scenario_A = Inr (Validation V08 2)" by simp
  from version_A_streams_and_mixed_streams[OF b1] b2 b3
  have B: "validateA2UIJsonl JSON_parse scenario_B = Inl [MixedVersions]" by simp
  from a1 a2 a3 A b1 b2 b3 B show ?thesis by blast
qed

text \<open>
  The claim as it was stated asked for no line at all: the empty payload has no line that
  is not blank, so all its lines are well formed and all its keys are of version 0.8, and
  validation fails on it, where the claim promises success with a count of zero.
\<close>

theorem blank_stream_counterexample:
  "single_action_lines JSON_parse [] \<and> only_version_A JSON_parse [] \<and>
   nonblank_lines [] = [] \<and>
   validateA2UIJsonl JSON_parse [] = Inl [NoMessages] \<and>
   validateA2UIJsonl JSON_parse [] \<noteq> Inr (Validation V08 (length (nonblank_lines [])))"
proof -
  have 1: "nonblank_lines [] = []" by (simp add: nonblank_lines_def trim_def)
  have 2: "validateA2UIJsonl JSON_parse [] = Inl [NoMessages]" by (rule validate_empty)
  show ?thesis using 1 2 by (simp add: single_action_lines_def only_version_A_def)
qed

lemma length_map_filter:
  "length (List.map_filter f xs) = length (filter (\<lambda>x. f x \<noteq> None) xs)"
  by (simp add: map_filter_def)

lemma length_filter_nth:
  "length (filter (\<lambda>i. P (xs ! i)) [0..<length xs]) = length (filter P xs)"
proof -
  have "filter P xs = filter P (map (\<lambda>i. xs ! i) [0..<length xs])" by (simp add: map_nth)
  also have "\<dots> = map (\<lambda>i. xs ! i) (filter (P \<circ> (\<lambda>i. xs ! i)) [0..<length xs])"
    by (rule filter_map)
  finally have "length (filter P xs) = length (filter (P \<circ> (\<lambda>i. xs ! i)) [0..<length xs])"
    by simp
  then show ?thesis by (simp add: comp_def)
qed

lemma counted_scan_lines:
  "counted (scan_lines parse (split_lines jsonl)) = length (nonblank_lines jsonl)"
  by (simp add: scan_lines_eq nonblank_lines_def)

lemma NoMessages_only_when_blank:
  assumes "nonblank_lines jsonl \<noteq> []" and "validateA2UIJsonl parse jsonl = Inl errs"
  shows "NoMessages \<notin> set errs"
proof -
  let ?lines = "split_lines jsonl"
  from assms(1) have nb: "\<not> (\<forall>l\<in>set ?lines. trim l = [])"
    by (auto simp: nonblank_lines_def filter_empty_conv)
  from assms(2) have errs: "errs = line_violations parse ?lines @ stream_violations parse ?lines"
    by (auto simp: validateA2UIJsonl_eq Let_def split: if_splits)
  have "NoMessages \<notin> set (line_violations parse ?lines)"
    using line_defect_not_stream by (auto simp: line_violations_iff)
  moreover have "NoMessages \<notin> set (stream_violations parse ?lines)"
    using nb by (simp add: stream_violations_def)
  ultimately show ?thesis using errs by simp
qed

lemma all_malformed:
  assumes ne: "nonblank_lines jsonl \<noteq> []"
      and bad: "\<forall>l\<in>set (nonblank_lines jsonl). \<exists>err. parse (trim l) = Inl err"
  shows "validateA2UIJsonl parse jsonl = Inl (line_violations parse (split_lines jsonl)) \<and>
         length (line_violations parse (split_lines jsonl)) = length (nonblank_lines jsonl) \<and>
         (\<forall>v\<in>set (line_violations parse (split_lines jsonl)). \<exists>n err. v = LineSyntax n err)"
proof -
  let ?lines = "split_lines jsonl"
  have bad': "\<exists>err. parse (trim l) = Inl err" if "l \<in> set ?lines" "trim l \<noteq> []" for l
    using bad that by (simp add: set_nonblank_lines)
  have defect: "line_defect parse n l \<noteq> None \<longleftrightarrow> trim l \<noteq> []" if "l \<in> set ?lines" for l n
    using bad'[OF that] by (auto simp: line_defect_def)
  have kind: "\<exists>m err. v = LineSyntax m err" if "l \<in> set ?lines" "line_defect parse n l = Some v" for l n v
  proof -
    from that(2) have "trim l \<noteq> []" by (auto simp: line_defect_def split: if_splits)
    with bad'[OF that(1)] obtain err where "parse (trim l) = Inl err" by blast
    with that(2) \<open>trim l \<noteq> []\<close> show ?thesis by (auto simp: line_defect_def)
  qed
  have nov: "line_version parse l = None" if "l \<in> set ?lines" for l
  proof (cases "trim l = []")
    case True
    then show ?thesis by (rule line_version_blank)
  next
    case False
    with bad'[OF that] obtain err where "parse (trim l) = Inl err" by blast
    with False show ?thesis by (simp add: line_version_def)
  qed
  from ne have nb: "\<not> (\<forall>l\<in>set ?lines. trim l = [])"
    by (auto simp: nonblank_lines_def filter_empty_conv)
  have stream: "stream_violations parse ?lines = []"
    using nb nov by (auto simp: stream_violations_def)
  have "filter (\<lambda>i. line_defect parse (i + 1) (?lines ! i) \<noteq> None) [0..<length ?lines] =
        filter (\<lambda>i. trim (?lines ! i) \<noteq> []) [0..<length ?lines]"
  proof (rule filter_cong[OF refl])
    fix i assume "i \<in> set [0..<length ?lines]"
    then have "?lines ! i \<in> set ?lines" by simp
    from defect[OF this]
    show "(line_defect parse (i + 1) (?lines ! i) \<noteq> None) = (trim (?lines ! i) \<noteq> [])" .
  qed
  then have len: "length (line_violations parse ?lines) = length (nonblank_lines jsonl)"
    unfolding line_violations_def length_map_filter nonblank_lines_def
    using length_filter_nth[of "\<lambda>l. trim l \<noteq> []" ?lines] by simp
  with ne have "line_violations parse ?lines \<noteq> []" by auto
  with stream have 1: "validateA2UIJsonl parse jsonl = Inl (line_violations parse ?lines)"
    by (simp add: validateA2UIJsonl_eq Let_def)
  have 3: "\<forall>v\<in>set (line_violations parse ?lines). \<exists>n err. v = LineSyntax n err"
  proof
    fix v assume "v \<in> set (line_violations parse ?lines)"
    then obtain i where i: "i < length ?lines"
      and d: "line_defect parse (i + 1) (?lines ! i) = Some v"
      unfolding line_violations_iff by blast
    from i have "?lines ! i \<in> set ?lines" by simp
    from kind[OF this d] show "\<exists>n err. v = LineSyntax n err" .
  qed
  from 1 len 3 show ?thesis by blast
qed

text \<open>
  Claim C10. A payload with at least one line that is not blank never gets the
  empty-stream violation, whatever the parser says of its lines: every line that is not
  blank is counted before it is parsed. When every such line fails to parse, validation
  fails with the violations of the lines and nothing else, one syntax violation for each.
\<close>

theorem nonblank_input_never_empty_stream:
  assumes "nonblank_lines jsonl \<noteq> []"
  shows "counted (scan_lines parse (split_lines jsonl)) = length (nonblank_lines jsonl) \<and>
         (\<forall>errs. validateA2UIJsonl parse jsonl = Inl errs \<longrightarrow> NoMessages \<notin> set errs) \<and>
         ((\<forall>l\<in>set (nonblank_lines jsonl). \<exists>err. parse (trim l) = Inl err) \<longrightarrow>
            validateA2UIJsonl parse jsonl = Inl (line_violations parse (split_lines jsonl)) \<and>
            length (line_violations parse (split_lines jsonl)) = length (nonblank_lines jsonl) \<and>
            (\<forall>v\<in>set (line_violations parse (split_lines jsonl)). \<exists>n err. v = LineSyntax n err))"
  using counted_scan_lines NoMessages_only_when_blank[OF assms] all_malformed[OF assms]
  by blast

theorem nonblank_input_never_empty_stream_witness:
  "nonblank_lines malformed_payload \<noteq> [] \<and>
   nonblank_lines malformed_payload = [''{beginRendering}'', ''not json''] \<and>
   JSON_parse (trim ''{beginRendering}'') = Inl syntax_error \<and>
   JSON_parse (trim ''not json'') = Inl syntax_error \<and>
   counted (scan_lines JSON_parse (split_lines malformed_payload)) = 2 \<and>
   validateA2UIJsonl JSON_parse malformed_payload =
     Inl [LineSyntax 1 syntax_error, LineSyntax 3 syntax_error] \<and>
   NoMessages \<notin> set [LineSyntax 1 syntax_error, LineSyntax 3 syntax_error]"
proof -
  have ne: "nonblank_lines malformed_payload \<noteq> []" by code_simp
  have nb: "nonblank_lines malformed_payload = [''{beginRendering}'', ''not json'']" by code_simp
  have p1: "JSON_parse (trim ''{beginRendering}'') = Inl syntax_error" by code_simp
  have p2: "JSON_parse (trim ''not json'') = Inl syntax_error" by code_simp
  have bad: "\<forall>l\<in>set (nonblank_lines malformed_payload). \<exists>err. JSON_parse (trim l) = Inl err"
    unfolding nb using p1 p2 by simp
  have lv: "line_violations JSON_parse (split_lines malformed_payload) =
     [LineSyntax 1 syntax_error, LineSyntax 3 syntax_error]" by code_simp
  have len: "length (nonblank_lines malformed_payload) = 2" unfolding nb by simp
  from nonblank_input_never_empty_stream[OF ne, of JSON_parse] bad lv len ne nb p1 p2
  show ?thesis by simp
qed

lemma blank_only_fails:
  assumes "nonblank_lines jsonl = []"
  shows "validateA2UIJsonl parse jsonl = Inl [NoMessages]"
proof -
  let ?lines = "split_lines jsonl"
  from assms have blank: "\<forall>l\<in>set ?lines. trim l = []"
    by (simp add: nonblank_lines_def filter_empty_conv)
  have "line_violations parse ?lines = []"
  proof (rule line_violations_Nil)
    fix l n assume "l \<in> set ?lines"
    with blank have "trim l = []" by blast
    then show "line_defect parse n l = None" by (rule line_defect_blank)
  qed
  moreover have "stream_violations parse ?lines = [NoMessages]"
    using blank by (simp add: stream_violations_def line_version_blank)
  ultimately show ?thesis by (simp add: validateA2UIJsonl_eq Let_def)
qed

lemma line_action_key_of_card:
  assumes "trim l \<noteq> []" and "parse (trim l) = Inr (JObject members)"
      and "card (set A2UI_ACTION_KEYS \<inter> fst ` set members) = 1"
  shows "\<exists>k. line_action_key parse l = Some k"
proof -
  from assms(3) have "length (action_keys_of members) = 1"
    by (simp add: length_action_keys_of)
  then obtain k where "action_keys_of members = [k]"
    by (cases "action_keys_of members") auto
  with assms(1,2) have "line_action_key parse l = Some k"
    by (simp add: line_action_key_def filter_keys_eq)
  then show ?thesis by blast
qed

lemma success_lines_well_formed:
  assumes "validateA2UIJsonl parse jsonl = Inr r"
  shows "single_action_lines parse jsonl"
proof -
  let ?lines = "split_lines jsonl"
  from assms have nil: "line_violations parse ?lines = []"
    by (auto simp: validateA2UIJsonl_eq Let_def split: if_splits)
  have "line_action_key parse l \<noteq> None" if l: "l \<in> set (nonblank_lines jsonl)" for l
  proof -
    from l have mem: "l \<in> set ?lines" and nb: "trim l \<noteq> []"
      by (simp_all add: set_nonblank_lines)
    from mem obtain i where i: "i < length ?lines" and li: "?lines ! i = l"
      by (auto simp: in_set_conv_nth)
    have "line_defect parse (i + 1) l = None"
    proof (cases "line_defect parse (i + 1) l")
      case None
      then show ?thesis .
    next
      case (Some v)
      with i li have "v \<in> set (line_violations parse ?lines)"
        unfolding line_violations_iff by blast
      with nil show ?thesis by simp
    qed
    with nb obtain members where p: "parse (trim l) = Inr (JObject members)"
      and c: "card (set A2UI_ACTION_KEYS \<inter> fst ` set members) = 1"
      unfolding line_defect_None_iff by blast
    from line_action_key_of_card[of l parse members, OF nb p c] show ?thesis by auto
  qed
  then show ?thesis unfolding single_action_lines_def by blast
qed

lemma validate_cases:
  "(\<exists>r. validateA2UIJsonl parse jsonl = Inr r) \<or>
   (\<exists>errs. errs \<noteq> [] \<and> validateA2UIJsonl parse jsonl = Inl errs)"
  by (simp add: validateA2UIJsonl_eq Let_def)

lemma no_message_fails:
  assumes "\<forall>l\<in>set (nonblank_lines jsonl). line_action_key parse l = None"
  shows "\<exists>errs. errs \<noteq> [] \<and> validateA2UIJsonl parse jsonl = Inl errs"
proof -
  have "validateA2UIJsonl parse jsonl \<noteq> Inr r" for r
  proof
    assume ok: "validateA2UIJsonl parse jsonl = Inr r"
    from validate_success_count[OF ok] have "nonblank_lines jsonl \<noteq> []" by auto
    then obtain l where l: "l \<in> set (nonblank_lines jsonl)"
      by (cases "nonblank_lines jsonl") auto
    from success_lines_well_formed[OF ok] l have "line_action_key parse l \<noteq> None"
      unfolding single_action_lines_def by blast
    moreover from assms l have "line_action_key parse l = None" by simp
    ultimately show False by simp
  qed
  with validate_cases[of parse jsonl] show ?thesis by blast
qed

lemma unparseable_no_key:
  assumes "parse (trim l) = Inl err"
  shows "line_action_key parse l = None"
  using assms by (simp add: line_action_key_def)

text \<open>
  Claim C8. Validating the empty string fails with the empty-stream violation, and every
  result of a validation that succeeds has a message count of at least 1: the count is the
  number of lines that are not blank, and each of them is an object with exactly one action
  key. So a stream with no such message never succeeds: a text with blank lines only fails
  with the empty-stream violation, as the empty string does, and a text none of whose lines
  parses, or none of whose lines is such an object, fails.
\<close>

theorem empty_stream_fails_and_success_counts:
  "validateA2UIJsonl parse [] = Inl [NoMessages] \<and>
   (nonblank_lines jsonl = [] \<longrightarrow> validateA2UIJsonl parse jsonl = Inl [NoMessages]) \<and>
   ((\<forall>l\<in>set (nonblank_lines jsonl). \<exists>err. parse (trim l) = Inl err) \<longrightarrow>
      (\<exists>errs. errs \<noteq> [] \<and> validateA2UIJsonl parse jsonl = Inl errs)) \<and>
   ((\<forall>l\<in>set (nonblank_lines jsonl). line_action_key parse l = None) \<longrightarrow>
      (\<exists>errs. errs \<noteq> [] \<and> validateA2UIJsonl parse jsonl = Inl errs)) \<and>
   (validateA2UIJsonl parse jsonl = Inr r \<longrightarrow>
      1 \<le> messageCount r \<and> messageCount r = length (nonblank_lines jsonl) \<and>
      single_action_lines parse jsonl)"
proof -
  have 1: "validateA2UIJsonl parse [] = Inl [NoMessages]" by (rule validate_empty)
  have 2: "nonblank_lines jsonl = [] \<longrightarrow> validateA2UIJsonl parse jsonl = Inl [NoMessages]"
    using blank_only_fails by blast
  have 4: "(\<forall>l\<in>set (nonblank_lines jsonl). line_action_key parse l = None) \<longrightarrow>
      (\<exists>errs. errs \<noteq> [] \<and> validateA2UIJsonl parse jsonl = Inl errs)"
    using no_message_fails by blast
  have 3: "(\<forall>l\<in>set (nonblank_lines jsonl). \<exists>err. parse (trim l) = Inl err) \<longrightarrow>
      (\<exists>errs. errs \<noteq> [] \<and> validateA2UIJsonl parse jsonl = Inl errs)"
  proof
    assume "\<forall>l\<in>set (nonblank_lines jsonl). \<exists>err. parse (trim l) = Inl err"
    then have "\<forall>l\<in>set (nonblank_lines jsonl). line_action_key parse l = None"
      using unparseable_no_key by blast
    with 4 show "\<exists>errs. errs \<noteq> [] \<and> validateA2UIJsonl parse jsonl = Inl errs" by blast
  qed
  have 5: "validateA2UIJsonl parse jsonl = Inr r \<longrightarrow>
      1 \<le> messageCount r \<and> messageCount r = length (nonblank_lines jsonl) \<and>
      single_action_lines parse jsonl"
    using validate_success_count success_lines_well_formed by blast
  from 1 2 3 4 5 show ?thesis by blast
qed

theorem empty_stream_fails_and_success_counts_witness:
  "validateA2UIJsonl JSON_parse [] = Inl [NoMessages] \<and>
   nonblank_lines blank_payload = [] \<and>
   validateA2UIJsonl JSON_parse blank_payload = Inl [NoMessages] \<and>
   map (\<lambda>l. JSON_parse (trim l)) (nonblank_lines malformed_payload) =
     [Inl syntax_error, Inl syntax_error] \<and>
   validateA2UIJsonl JSON_parse malformed_payload =
     Inl [LineSyntax 1 syntax_error, LineSyntax 3 syntax_error] \<and>
   validateA2UIJsonl JSON_parse scenario_A = Inr (Validation V08 2) \<and>
   1 \<le> messageCount (Validation V08 2) \<and>
   messageCount (Validation V08 2) = length (nonblank_lines scenario_A) \<and>
   single_action_lines JSON_parse scenario_A"
proof -
  have b: "nonblank_lines blank_payload = []" by code_simp
  have m: "map (\<lambda>l. JSON_parse (trim l)) (nonblank_lines malformed_payload) =
     [Inl syntax_error, Inl syntax_error]" by code_simp
  then have m': "\<forall>l\<in>set (nonblank_lines malformed_payload). \<exists>err. JSON_parse (trim l) = Inl err"
    by (cases "nonblank_lines malformed_payload") (auto split: list.splits)
  have mv: "validateA2UIJsonl JSON_parse malformed_payload =
     Inl [LineSyntax 1 syntax_error, LineSyntax 3 syntax_error]" by code_simp
  have a: "validateA2UIJsonl JSON_parse scenario_A = Inr (Validation V08 2)" by code_simp
  from empty_stream_fails_and_success_counts[of JSON_parse blank_payload] b
  have B: "validateA2UIJsonl JSON_parse blank_payload = Inl [NoMessages]" by blast
  from empty_stream_fails_and_success_counts[of JSON_parse malformed_payload] m'
  have M: "\<exists>errs. errs \<noteq> [] \<and> validateA2UIJsonl JSON_parse malformed_payload = Inl errs"
    by blast
  from empty_stream_fails_and_success_counts[of JSON_parse scenario_A "Validation V08 2"] a
  have A: "1 \<le> messageCount (Validation V08 2) \<and>
      messageCount (Validation V08 2) = length (nonblank_lines scenario_A) \<and>
      single_action_lines JSON_parse scenario_A" by blast
  from empty_stream_fails_and_success_counts[of JSON_parse "[]"]
  have E: "validateA2UIJsonl JSON_parse [] = Inl [NoMessages]" by blast
  from E b B m mv a A M show ?thesis by blast
qed

section \<open>The push command and the unsupported version\<close>

lemma only_createSurface_stream:
  assumes ne: "nonblank_lines jsonl \<noteq> []"
      and b: "\<forall>l\<in>set (nonblank_lines jsonl). line_action_key parse l = Some ''createSurface''"
  shows "validateA2UIJsonl parse jsonl = Inr (Validation V09 (length (nonblank_lines jsonl)))"
proof -
  let ?lines = "split_lines jsonl"
  from b have wf: "single_action_lines parse jsonl" by (simp add: single_action_lines_def)
  have no8: "\<not> (\<exists>l\<in>set ?lines. line_version parse l = Some V08)"
  proof
    assume "\<exists>l\<in>set ?lines. line_version parse l = Some V08"
    then obtain l where l: "l \<in> set ?lines" and v: "line_version parse l = Some V08" by blast
    from single_action_version[OF wf l, of V08] v
    obtain k where k: "line_action_key parse l = Some k"
      and eq: "V08 = (if k = ''createSurface'' then V09 else V08)" by blast
    from eq have "k \<noteq> ''createSurface''" by (auto split: if_splits)
    moreover from line_action_key_Some[OF k] l have "l \<in> set (nonblank_lines jsonl)"
      by (simp add: set_nonblank_lines)
    ultimately show False using b k by auto
  qed
  from ne obtain l where l: "l \<in> set (nonblank_lines jsonl)"
    by (cases "nonblank_lines jsonl") auto
  with b have "line_action_key parse l = Some ''createSurface''" by blast
  from line_action_key_Some[OF this] have "line_version parse l = Some V09" by simp
  with l have yes9: "\<exists>l\<in>set ?lines. line_version parse l = Some V09"
    by (auto simp: set_nonblank_lines)
  from l have nb: "\<not> (\<forall>l\<in>set ?lines. trim l = [])" by (auto simp: set_nonblank_lines)
  have "stream_violations parse ?lines = []"
    using no8 nb by (simp add: stream_violations_def)
  then show ?thesis
    using yes9 single_action_no_line_violations[OF wf]
    by (simp add: validateA2UIJsonl_eq Let_def nonblank_lines_def)
qed

lemma unsupported_message_distinct: "unsupported_version_message \<noteq> invalid_message errs"
  by (simp add: unsupported_version_message_def invalid_message_def)

lemma a2ui_push_payload:
  assumes "push_payload readFile opts payload"
  shows "a2ui_push gw readFile parse key opts =
     (case validateA2UIJsonl parse payload of
        Inl errs \<Rightarrow> push_failed [] (Error (invalid_message errs))
      | Inr v \<Rightarrow>
          if version v = V09
          then push_failed [] (Error unsupported_version_message)
          else
            (case invokeCanvas gw key opts ''canvas.a2ui.pushJSONL''
                    (Some [(''jsonl'', payload)]) of
               (Inl e, t) \<Rightarrow> push_failed t e
             | (Inr _, t) \<Rightarrow>
                 \<lparr>gateway_calls = t,
                  logged =
                    (if opt_json opts = Some True then []
                     else [''canvas a2ui push ok (v0.8, '' @
                           string_of_nat (messageCount v) @ '' message'' @
                           (if messageCount v = 1 then [] else ''s'') @ '')'']),
                  reported = [], exit_code = None\<rparr>))"
proof -
  from assms consider
    (from_file) path where "opt_text opts = None" "opt_jsonl opts = Some path" "path \<noteq> []"
      "readFile path = Inr payload"
  | (from_text) t where "opt_jsonl opts = None \<or> opt_jsonl opts = Some []"
      "opt_text opts = Some t" "payload = buildA2UITextJsonl t"
    unfolding push_payload_def by blast
  then show ?thesis
  proof cases
    case from_file
    then show ?thesis by (simp add: a2ui_push_def)
  next
    case from_text
    from from_text(1,2) show ?thesis unfolding from_text(3) by (auto simp add: a2ui_push_def)
  qed
qed

text \<open>
  Claim C9. A payload that is well formed and made of \<open>createSurface\<close> messages only
  is rejected by \<open>canvas a2ui push\<close>: the command reports the unsupported-version
  error and exits with 1, it makes no gateway call, and the message of that error is none
  of the messages of a failed validation.
\<close>

theorem createSurface_only_payload_rejected:
  assumes "push_payload readFile opts payload"
      and "nonblank_lines payload \<noteq> []"
      and "\<forall>l\<in>set (nonblank_lines payload). line_action_key parse l = Some ''createSurface''"
  shows "a2ui_push gw readFile parse key opts =
           \<lparr>gateway_calls = [], logged = [],
            reported = [''canvas a2ui push failed: Error: '' @ unsupported_version_message],
            exit_code = Some 1\<rparr> \<and>
         (\<forall>errs. unsupported_version_message \<noteq> invalid_message errs)"
  using a2ui_push_payload[OF assms(1), of gw parse key]
    only_createSurface_stream[OF assms(2,3)] unsupported_message_distinct
  by (simp add: push_failed_def)

theorem createSurface_only_payload_rejected_witness:
  "push_payload createSurface_file createSurface_opts createSurface_payload \<and>
   nonblank_lines createSurface_payload \<noteq> [] \<and>
   map (line_action_key JSON_parse) (nonblank_lines createSurface_payload) =
     [Some ''createSurface''] \<and>
   a2ui_push offline_gateway createSurface_file JSON_parse ''key-1'' createSurface_opts =
     \<lparr>gateway_calls = [], logged = [],
      reported = [''canvas a2ui push failed: Error: '' @ unsupported_version_message],
      exit_code = Some 1\<rparr>"
proof -
  have 1: "push_payload createSurface_file createSurface_opts createSurface_payload"
    by (simp add: push_payload_def createSurface_file_def createSurface_opts_def)
  have 2: "nonblank_lines createSurface_payload \<noteq> []" by code_simp
  have 3: "\<forall>l\<in>set (nonblank_lines createSurface_payload).
      line_action_key JSON_parse l = Some ''createSurface''" by code_simp
  have 4: "map (line_action_key JSON_parse) (nonblank_lines createSurface_payload) =
     [Some ''createSurface'']" by code_simp
  from createSurface_only_payload_rejected[OF 1 2 3, of offline_gateway "''key-1''"] 1 2 4
  show ?thesis by blast
qed

section \<open>Resolving a node\<close>

lemma trim_Nil: "trim [] = []"
  by (simp add: trim_def)

lemma resolve_in_default:
  assumes "query = None \<or> query = Some []"
  shows "resolve_in nodes query =
     (case pickDefaultNode nodes of Some picked \<Rightarrow> Inr (nodeId picked) | None \<Rightarrow> Inl NodeRequired)"
  using assms by (auto simp: resolve_in_def trim_Nil)

lemma resolve_in_query:
  assumes "trim query = q" and "q \<noteq> []"
  shows "resolve_in nodes (Some query) = resolve_query nodes q"
  using assms by (simp add: resolve_in_def)

lemma pickDefaultNode_eq:
  "pickDefaultNode nodes =
     (if filter has_canvas nodes = [] then None
      else if length (default_candidates nodes) = 1 then Some (hd (default_candidates nodes))
      else if length (filter is_local_mac (default_candidates nodes)) = 1
           then Some (hd (filter is_local_mac (default_candidates nodes)))
           else None)"
  by (simp add: pickDefaultNode_def default_candidates_def Let_def)

lemma pick_single_connected:
  assumes "filter (\<lambda>m. is_connected m \<and> has_canvas m) nodes = [n]"
  shows "pickDefaultNode nodes = Some n"
proof -
  have "filter is_connected (filter has_canvas nodes) =
        filter (\<lambda>m. has_canvas m \<and> is_connected m) nodes" by simp
  also have "\<dots> = filter (\<lambda>m. is_connected m \<and> has_canvas m) nodes"
    by (rule filter_cong) auto
  finally have c: "filter is_connected (filter has_canvas nodes) = [n]" using assms by simp
  then have "n \<in> set (filter is_connected (filter has_canvas nodes))" by simp
  then have "n \<in> set (filter has_canvas nodes)" by simp
  then have ne: "filter has_canvas nodes \<noteq> []" by (auto simp: filter_empty_conv)
  from c have "default_candidates nodes = [n]" by (simp add: default_candidates_def)
  with ne show ?thesis by (simp add: pickDefaultNode_eq)
qed

lemma pick_single_capable:
  assumes "\<forall>m\<in>set nodes. \<not> is_connected m" and "filter has_canvas nodes = [n]"
  shows "pickDefaultNode nodes = Some n"
proof -
  from assms(1) have "filter is_connected (filter has_canvas nodes) = []"
    by (simp add: filter_empty_conv)
  with assms(2) have "default_candidates nodes = [n]" by (simp add: default_candidates_def)
  with assms(2) show ?thesis by (simp add: pickDefaultNode_eq)
qed

text \<open>
  Claim C4. With an empty or absent query: when exactly one node of the directory is both
  marked connected and capable of the canvas (its capability list is absent or contains
  \<open>canvas\<close>), resolution returns the id of that node; and when no node is marked
  connected and exactly one node is capable, resolution returns the id of that node.
\<close>

theorem default_resolution_single_candidate:
  assumes "query = None \<or> query = Some []"
  shows "(filter (\<lambda>m. is_connected m \<and> has_canvas m) nodes = [n] \<longrightarrow>
            resolve_in nodes query = Inr (nodeId n)) \<and>
         ((\<forall>m\<in>set nodes. \<not> is_connected m) \<and> filter has_canvas nodes = [n] \<longrightarrow>
            resolve_in nodes query = Inr (nodeId n))"
  using pick_single_connected[of nodes n] pick_single_capable[of nodes n]
  by (auto simp: resolve_in_default[OF assms])

theorem default_resolution_single_candidate_witness:
  "filter (\<lambda>m. is_connected m \<and> has_canvas m) [studio_mac, office_pc, camera_node] = [studio_mac] \<and>
   resolve_in [studio_mac, office_pc, camera_node] None = Inr ''mac-123456'' \<and>
   filter is_connected [office_pc, camera_node \<lparr>connected := None\<rparr>] = [] \<and>
   filter has_canvas [office_pc, camera_node \<lparr>connected := None\<rparr>] = [office_pc] \<and>
   resolve_in [office_pc, camera_node \<lparr>connected := None\<rparr>] (Some []) = Inr ''pc-7''"
proof -
  have 1: "filter (\<lambda>m. is_connected m \<and> has_canvas m) [studio_mac, office_pc, camera_node] = [studio_mac]"
    by (simp add: is_connected_def has_canvas_def studio_mac_def office_pc_def camera_node_def)
  have 2: "\<forall>m\<in>set [office_pc, camera_node \<lparr>connected := None\<rparr>]. \<not> is_connected m"
    by (simp add: is_connected_def office_pc_def camera_node_def)
  have 3: "filter has_canvas [office_pc, camera_node \<lparr>connected := None\<rparr>] = [office_pc]"
    by (simp add: has_canvas_def office_pc_def camera_node_def)
  have a: "resolve_in [studio_mac, office_pc, camera_node] None = Inr (nodeId studio_mac)"
    using default_resolution_single_candidate[of None "[studio_mac, office_pc, camera_node]" studio_mac] 1
    by blast
  have b: "resolve_in [office_pc, camera_node \<lparr>connected := None\<rparr>] (Some []) = Inr (nodeId office_pc)"
    using default_resolution_single_candidate[of "Some []" "[office_pc, camera_node \<lparr>connected := None\<rparr>]" office_pc] 2 3
    by blast
  have 4: "filter is_connected [office_pc, camera_node \<lparr>connected := None\<rparr>] = []"
    using 2 by simp
  from 1 3 4 a b show ?thesis by (simp add: studio_mac_def office_pc_def)
qed

text \<open>
  Claim C7, amended. Default selection has one error for both of its failures: with an
  empty or absent query, resolution fails with \<open>node required (use --node or ensure only
  one connected node is available)\<close> when no node of the directory is capable, and
  with the same error when two or more candidates are left after the connected filter and
  the local-platform tie-break does not leave exactly one.
\<close>

theorem default_selection_single_error:
  assumes "query = None \<or> query = Some []"
  shows "(filter has_canvas nodes = [] \<longrightarrow> resolve_in nodes query = Inl NodeRequired) \<and>
         (2 \<le> length (default_candidates nodes) \<and>
          length (filter is_local_mac (default_candidates nodes)) \<noteq> 1 \<longrightarrow>
            resolve_in nodes query = Inl NodeRequired) \<and>
         resolve_error_message NodeRequired =
           ''node required (use --node or ensure only one connected node is available)''"
  by (auto simp: resolve_in_default[OF assms] pickDefaultNode_eq resolve_error_message_def)

theorem default_selection_single_error_witness:
  "filter has_canvas [camera_node] = [] \<and>
   resolve_in [camera_node] None = Inl NodeRequired \<and>
   2 \<le> length (default_candidates [office_pc, lab_pc]) \<and>
   length (filter is_local_mac (default_candidates [office_pc, lab_pc])) \<noteq> 1 \<and>
   resolve_in [office_pc, lab_pc] (Some []) = Inl NodeRequired"
proof -
  have 1: "filter has_canvas [camera_node] = []"
    by (simp add: has_canvas_def camera_node_def)
  have 2: "default_candidates [office_pc, lab_pc] = [office_pc, lab_pc]"
    by (simp add: default_candidates_def has_canvas_def is_connected_def office_pc_def lab_pc_def)
  have 3: "filter is_local_mac [office_pc, lab_pc] = []"
    by (simp add: is_local_mac_def startsWith_def office_pc_def lab_pc_def)
  have a: "resolve_in [camera_node] None = Inl NodeRequired"
    using default_selection_single_error[of None "[camera_node]"] 1 by blast
  have b: "resolve_in [office_pc, lab_pc] (Some []) = Inl NodeRequired"
    using default_selection_single_error[of "Some []" "[office_pc, lab_pc]"] 2 3 by simp
  from 1 2 3 a b show ?thesis by simp
qed

text \<open>
  The claim as it was stated asked for two distinct errors. A directory with no capable
  node and a directory with two capable candidates and no local one get the same error.
\<close>

theorem default_selection_counterexample:
  "filter has_canvas [camera_node] = [] \<and>
   resolve_in [camera_node] None = Inl NodeRequired \<and>
   default_candidates [office_pc, lab_pc] = [office_pc, lab_pc] \<and>
   filter is_local_mac [office_pc, lab_pc] = [] \<and>
   resolve_in [office_pc, lab_pc] None = Inl NodeRequired \<and>
   resolve_in [camera_node] None = resolve_in [office_pc, lab_pc] None"
proof -
  have 1: "filter has_canvas [camera_node] = []"
    by (simp add: has_canvas_def camera_node_def)
  have 2: "default_candidates [office_pc, lab_pc] = [office_pc, lab_pc]"
    by (simp add: default_candidates_def has_canvas_def is_connected_def office_pc_def lab_pc_def)
  have 3: "filter is_local_mac [office_pc, lab_pc] = []"
    by (simp add: is_local_mac_def startsWith_def office_pc_def lab_pc_def)
  have 4: "resolve_in [camera_node] None = Inl NodeRequired"
    using 1 by (simp add: resolve_in_default pickDefaultNode_eq)
  have 5: "filter has_canvas [office_pc, lab_pc] \<noteq> []"
    by (simp add: has_canvas_def office_pc_def lab_pc_def)
  have 6: "resolve_in [office_pc, lab_pc] None = Inl NodeRequired"
    using 2 3 5 by (simp add: resolve_in_default pickDefaultNode_eq)
  from 1 2 3 4 6 show ?thesis by simp
qed

lemma node_matches_short:
  assumes "length q < 6"
  shows "node_matches q n \<longleftrightarrow>
     nodeId n = q \<or> remoteIp n = Some q \<or>
     (\<exists>name. displayName n = Some name \<and> name \<noteq> [] \<and>
        normalizeNodeKey name = normalizeNodeKey q)"
  using assms by (auto simp: node_matches_def split: option.splits)

lemma node_matches_exact:
  "nodeId n = q \<or> remoteIp n = Some q \<Longrightarrow> node_matches q n"
  by (auto simp: node_matches_def)

text \<open>
  Claim C3. A query that is not empty, has fewer than 6 characters, is a strict prefix of
  the id of some node, equals no id and no remote address of the directory, and whose
  normal form is the normal form of no display name, fails with the unknown-node error,
  which carries the labels of the known nodes. The query is the one the resolver matches
  with, its argument with the surrounding white space trimmed. For a query of fewer than
  6 characters a node matches by its id, its remote address or its display name only:
  prefixes of ids count from 6 characters on.
\<close>

theorem short_prefix_is_unknown:
  assumes "q \<noteq> []" and "length q < 6"
      and "\<exists>n\<in>set nodes. startsWith (nodeId n) q \<and> nodeId n \<noteq> q"
      and "\<forall>n\<in>set nodes. nodeId n \<noteq> q \<and> remoteIp n \<noteq> Some q"
      and "\<forall>n\<in>set nodes. \<forall>name. displayName n = Some name \<longrightarrow>
             normalizeNodeKey name \<noteq> normalizeNodeKey q"
  shows "resolve_query nodes q =
           Inl (UnknownNode q (filter (\<lambda>l. l \<noteq> []) (map node_label nodes))) \<and>
         (\<forall>query. trim query = q \<longrightarrow>
            resolve_in nodes (Some query) =
              Inl (UnknownNode q (filter (\<lambda>l. l \<noteq> []) (map node_label nodes)))) \<and>
         (\<forall>n. node_matches q n \<longleftrightarrow>
            nodeId n = q \<or> remoteIp n = Some q \<or>
            (\<exists>name. displayName n = Some name \<and> name \<noteq> [] \<and>
               normalizeNodeKey name = normalizeNodeKey q))"
proof -
  have "\<not> node_matches q n" if "n \<in> set nodes" for n
    using assms(4,5) that by (auto simp: node_matches_short[OF assms(2)])
  then have "filter (node_matches q) nodes = []" by (simp add: filter_empty_conv)
  then have 1: "resolve_query nodes q =
           Inl (UnknownNode q (filter (\<lambda>l. l \<noteq> []) (map node_label nodes)))"
    by (simp add: resolve_query_def)
  with assms(1) have 2: "\<forall>query. trim query = q \<longrightarrow>
            resolve_in nodes (Some query) =
              Inl (UnknownNode q (filter (\<lambda>l. l \<noteq> []) (map node_label nodes)))"
    by (simp add: resolve_in_query)
  from 1 2 node_matches_short[OF assms(2)] show ?thesis by blast
qed

theorem short_prefix_is_unknown_witness:
  "''mac-1'' \<noteq> [] \<and> length ''mac-1'' < 6 \<and>
   (\<exists>n\<in>set [studio_mac, office_pc]. startsWith (nodeId n) ''mac-1'' \<and> nodeId n \<noteq> ''mac-1'') \<and>
   resolve_query [studio_mac, office_pc] ''mac-1'' =
     Inl (UnknownNode ''mac-1'' [''Studio Mac'', ''pc-7'']) \<and>
   resolve_in [studio_mac, office_pc] (Some '' mac-1 '') =
     Inl (UnknownNode ''mac-1'' [''Studio Mac'', ''pc-7'']) \<and>
   resolve_query [studio_mac, office_pc] ''mac-12'' = Inr ''mac-123456''"
proof -
  have 1: "\<exists>n\<in>set [studio_mac, office_pc]. startsWith (nodeId n) ''mac-1'' \<and> nodeId n \<noteq> ''mac-1''"
    by (simp add: startsWith_def studio_mac_def)
  have 2: "\<forall>n\<in>set [studio_mac, office_pc]. nodeId n \<noteq> ''mac-1'' \<and> remoteIp n \<noteq> Some ''mac-1''"
    by (simp add: studio_mac_def office_pc_def)
  have k1: "normalizeNodeKey ''Studio Mac'' = ''studio-mac''" by code_simp
  have k2: "normalizeNodeKey ''mac-1'' = ''mac-1''" by code_simp
  have 3: "\<forall>n\<in>set [studio_mac, office_pc]. \<forall>name. displayName n = Some name \<longrightarrow>
             normalizeNodeKey name \<noteq> normalizeNodeKey ''mac-1''"
    by (simp add: studio_mac_def office_pc_def k1 k2)
  have t: "trim '' mac-1 '' = ''mac-1''" by code_simp
  have l: "filter (\<lambda>l. l \<noteq> []) (map node_label [studio_mac, office_pc]) = [''Studio Mac'', ''pc-7'']"
    by (simp add: node_label_def studio_mac_def office_pc_def)
  have p: "resolve_query [studio_mac, office_pc] ''mac-12'' = Inr ''mac-123456''" by code_simp
  from short_prefix_is_unknown[of "''mac-1''" "[studio_mac, office_pc]", OF _ _ 1 2 3] t l p 1
  show ?thesis by simp
qed

text \<open>
  Claim C6, amended. For every directory and every query that is not empty and equals the
  id or the remote address of some node, that node matches, so resolution does not fail
  with the unknown-node error: it returns the id of that node when the node is the only
  match, and fails with the ambiguous-node error, listing the matches, when another node
  matches too (by its id, its remote address, the normal form of its display name, or its
  id having the query of at least 6 characters as a prefix).
\<close>

theorem exact_query_matches:
  assumes "n \<in> set nodes" and "q \<noteq> []"
      and "nodeId n = q \<or> remoteIp n = Some q"
  shows "node_matches q n \<and>
         (filter (node_matches q) nodes = [n] \<longrightarrow> resolve_query nodes q = Inr (nodeId n)) \<and>
         (filter (node_matches q) nodes \<noteq> [n] \<longrightarrow>
            resolve_query nodes q =
              Inl (AmbiguousNode q (map node_label (filter (node_matches q) nodes)))) \<and>
         (\<forall>query. trim query = q \<longrightarrow> resolve_in nodes (Some query) = resolve_query nodes q)"
proof -
  let ?ms = "filter (node_matches q) nodes"
  have m: "node_matches q n" using assms(3) by (rule node_matches_exact)
  with assms(1) have mem: "n \<in> set ?ms" by simp
  have 2: "?ms = [n] \<longrightarrow> resolve_query nodes q = Inr (nodeId n)"
    by (simp add: resolve_query_def)
  have 3: "?ms \<noteq> [n] \<longrightarrow>
      resolve_query nodes q = Inl (AmbiguousNode q (map node_label ?ms))"
  proof
    assume ne: "?ms \<noteq> [n]"
    have "length ?ms \<noteq> 1"
    proof
      assume "length ?ms = 1"
      then obtain x where x: "?ms = [x]" by (cases ?ms) auto
      with mem have "x = n" by simp
      with x ne show False by simp
    qed
    moreover from mem have "length ?ms \<noteq> 0" by (auto simp: filter_empty_conv)
    ultimately show "resolve_query nodes q = Inl (AmbiguousNode q (map node_label ?ms))"
      by (simp add: resolve_query_def Let_def)
  qed
  from assms(2) have 4: "\<forall>query. trim query = q \<longrightarrow> resolve_in nodes (Some query) = resolve_query nodes q"
    by (simp add: resolve_in_query)
  from m 2 3 4 show ?thesis by blast
qed

theorem exact_query_matches_witness:
  "office_pc \<in> set [studio_mac, office_pc] \<and> nodeId office_pc = ''pc-7'' \<and>
   filter (node_matches ''pc-7'') [studio_mac, office_pc] = [office_pc] \<and>
   resolve_query [studio_mac, office_pc] ''pc-7'' = Inr ''pc-7'' \<and>
   filter (node_matches ''pc-7'') [office_pc, lab_pc] \<noteq> [office_pc] \<and>
   resolve_query [office_pc, lab_pc] ''pc-7'' = Inl (AmbiguousNode ''pc-7'' [''pc-7'', ''PC 7''])"
proof -
  have id: "nodeId office_pc = ''pc-7''" by (simp add: office_pc_def)
  have f1: "filter (node_matches ''pc-7'') [studio_mac, office_pc] = [office_pc]" by code_simp
  have f2: "filter (node_matches ''pc-7'') [office_pc, lab_pc] = [office_pc, lab_pc]" by code_simp
  have l: "map node_label [office_pc, lab_pc] = [''pc-7'', ''PC 7'']"
    by (simp add: node_label_def office_pc_def lab_pc_def)
  have a: "resolve_query [studio_mac, office_pc] ''pc-7'' = Inr (nodeId office_pc)"
    using exact_query_matches[of office_pc "[studio_mac, office_pc]" "''pc-7''"] id f1 by simp
  have b: "resolve_query [office_pc, lab_pc] ''pc-7'' =
      Inl (AmbiguousNode ''pc-7'' (map node_label (filter (node_matches ''pc-7'') [office_pc, lab_pc])))"
    using exact_query_matches[of office_pc "[office_pc, lab_pc]" "''pc-7''"] id f2 by simp
  from id f1 f2 l a b show ?thesis by simp
qed

text \<open>
  The claim as it was stated promised the id whatever the display names are. A query that
  is the id of one node and the normal form of the display name of another is ambiguous.
\<close>

theorem exact_query_counterexample:
  "nodeId office_pc = ''pc-7'' \<and>
   resolve_in [office_pc, lab_pc] (Some ''pc-7'') = Inl (AmbiguousNode ''pc-7'' [''pc-7'', ''PC 7''])"
  by code_simp

end
